theory Spec2Isabelle
  imports Main "HOL-Library.AList"
begin

section \<open>Python values, exceptions and the literal-value formatter\<close>

text \<open>
  The exceptions the modelled code can raise. A raised exception is the \<open>Inl\<close> branch
  of a result.
\<close>

datatype pyerr = AttributeError | TypeError | IndexError

abbreviation sq :: char where "sq \<equiv> CHR 0x27"
abbreviation dq :: char where "dq \<equiv> CHR 0x22"
abbreviation nl :: char where "nl \<equiv> CHR 0x0A"

text \<open>\<open>val.startswith(p)\<close>.\<close>

definition startswith :: "string \<Rightarrow> string \<Rightarrow> bool" where
  "startswith val p = (take (length p) val = p)"

text \<open>
  The condition written three times in \<open>_formatVal\<close>:
  \<open>val.startswith("_") or val.startswith("[") or (" " in val and "\n" not in val)\<close>.
\<close>

definition reserved_or_spaced :: "string \<Rightarrow> bool" where
  "reserved_or_spaced val =
     (startswith val ''_'' \<or> startswith val ''['' \<or> (CHR '' '' \<in> set val \<and> nl \<notin> set val))"

text \<open>The Python slice \<open>val[1:-1]\<close>; it is empty for texts shorter than two characters.\<close>

definition slice_1_m1 :: "string \<Rightarrow> string" where
  "slice_1_m1 val = butlast (tl val)"

text \<open>\<open>"\n;" + val + "\n;\n"\<close>.\<close>

definition semicolon_block :: "string \<Rightarrow> string" where
  "semicolon_block val = [nl, CHR '';''] @ val @ [nl, CHR '';'', nl]"

text \<open>
  The first \<open>if/elif/else\<close> of \<open>_formatVal\<close> (source lines 664 to 683), with its
  redundant inner conditional expressions kept as they are written.
\<close>

definition quote_step :: "string \<Rightarrow> string" where
  "quote_step val =
     (if sq \<in> set val then
        (if reserved_or_spaced val
         then (if reserved_or_spaced val then [dq] @ val @ [dq] else val)
         else [dq] @ val @ [dq])
      else if dq \<in> set val then
        (if reserved_or_spaced val
         then (if reserved_or_spaced val then [sq] @ val @ [sq] else val)
         else [sq] @ val @ [sq])
      else (if reserved_or_spaced val then [dq] @ val @ [dq] else val))"

text \<open>
  \<open>_formatVal\<close>, applied to the text \<open>str(val)\<close>. The second \<open>if/elif\<close> (lines 684 to
  689) reads \<open>val[0]\<close>, which raises IndexError on the empty text.
\<close>

definition formatVal :: "string \<Rightarrow> pyerr + string" where
  "formatVal v =
     (let val = quote_step v in
      if nl \<in> set val then
        (case val of
           [] \<Rightarrow> Inl IndexError
         | c # _ \<Rightarrow>
             Inr (semicolon_block (if c = sq \<or> c = dq then slice_1_m1 val else val)))
      else
        (case val of
           [] \<Rightarrow> Inl IndexError
         | c # _ \<Rightarrow>
             if (c = sq \<or> c = dq) \<and> sq \<in> set (slice_1_m1 val) \<and> dq \<in> set (slice_1_m1 val)
             then Inr (semicolon_block (slice_1_m1 val))
             else Inr val))"

text \<open>
  The reading of the specification's words ``with any pre-existing wrapping single or
  double quotes stripped'': a text that arrives wrapped in a pair of equal quote
  characters loses that pair.
\<close>

definition spec_strip_wrapping_quotes :: "string \<Rightarrow> string" where
  "spec_strip_wrapping_quotes v =
     (if 2 \<le> length v \<and> (hd v = sq \<or> hd v = dq) \<and> last v = hd v then slice_1_m1 v else v)"

section \<open>The object tree: values, objects and the store\<close>

text \<open>
  Python values as far as the modelled code inspects them. \<open>PRef\<close> is a reference to an
  object of the tree, \<open>PStrClass\<close> is the class \<open>str\<close> (the initial \<open>type\<close> of an
  Item), \<open>PDict\<close> lists the pairs of a plain dictionary in iteration order. Lists are
  values here: the claims do not look at a list through a second reference.
\<close>

type_synonym addr = nat

datatype pyval =
    PNone
  | PBool bool
  | PInt int
  | PStr string
  | PList "pyval list"
  | PDict "(pyval \<times> pyval) list"
  | PRef addr
  | PStrClass

text \<open>
  The dictionaries of the containers (\<open>items\<close>, \<open>categories\<close>, \<open>saveFrames\<close>,
  \<open>data_blocks\<close>, \<open>recycleBin\<close>): string keys, object references as values, at most
  one pair per key.
\<close>

type_synonym dict = "(string \<times> addr) list"

record item =
  i_value :: pyval
  i_type :: pyval
  i_mandatory :: bool
  i_isColumn :: bool
  i_id :: string
  i_name :: string
  i_lineno :: pyval
  i_parent :: addr

record category =
  c_items :: dict
  c_recycleBin :: dict
  c_isTable :: bool
  c_id :: string
  c_maxTagLength :: nat
  c_parent :: addr

record saveframe =
  sf_id :: string
  sf_categories :: dict
  sf_recycleBin :: dict
  sf_parent :: addr

record datablock =
  db_id :: string
  db_categories :: dict
  db_saveFrames :: dict
  db_recycleBin :: dict
  db_parent :: addr

record ciffile =
  f_data_blocks :: dict
  f_recycleBin :: dict
  f_file_path :: "string option"

datatype obj =
    OItem item
  | OCategory category
  | OSaveFrame saveframe
  | ODataBlock datablock
  | OCifFile ciffile

text \<open>What \<open>print\<close> writes: an exception, a value, or a message.\<close>

datatype logentry = LogErr pyerr | LogVal pyval | LogStr string

text \<open>
  The state: the store of all objects (an object's address is its index, a new object
  is appended) and the printed output.
\<close>

record state =
  heap :: "obj list"
  out :: "logentry list"

definition lookup :: "state \<Rightarrow> addr \<Rightarrow> obj option" where
  "lookup s a = (if a < length (heap s) then Some (heap s ! a) else None)"

definition store :: "addr \<Rightarrow> obj \<Rightarrow> state \<Rightarrow> state" where
  "store a ob s = s\<lparr>heap := (heap s)[a := ob]\<rparr>"

definition alloc :: "obj \<Rightarrow> state \<Rightarrow> addr \<times> state" where
  "alloc ob s = (length (heap s), s\<lparr>heap := heap s @ [ob]\<rparr>)"

definition print :: "logentry \<Rightarrow> state \<Rightarrow> state" where
  "print e s = s\<lparr>out := out s @ [e]\<rparr>"

subsection \<open>Dictionary operations\<close>

text \<open>\<open>k in d\<close>, \<open>d[k] = v\<close>, \<open>d.pop(k)\<close> (without its result) and \<open>d.setdefault(k, v)\<close>.\<close>

definition dict_has :: "dict \<Rightarrow> string \<Rightarrow> bool" where
  "dict_has d k = (map_of d k \<noteq> None)"

definition dict_set :: "string \<Rightarrow> addr \<Rightarrow> dict \<Rightarrow> dict" where
  "dict_set k v d = AList.update k v d"

definition dict_pop :: "string \<Rightarrow> dict \<Rightarrow> dict" where
  "dict_pop k d = AList.delete k d"

definition dict_setdefault :: "string \<Rightarrow> addr \<Rightarrow> dict \<Rightarrow> addr \<times> dict" where
  "dict_setdefault k v d =
     (case map_of d k of Some x \<Rightarrow> (x, d) | None \<Rightarrow> (v, dict_set k v d))"

text \<open>\<open>s.lstrip('_')\<close>.\<close>

definition lstrip_underscore :: "string \<Rightarrow> string" where
  "lstrip_underscore n = dropWhile (\<lambda>c. c = CHR ''_'') n"

subsection \<open>Attribute access\<close>

text \<open>
  \<open>x.id\<close>: Item, Category, SaveFrame and DataBlock objects have the attribute; every
  other value raises AttributeError (\<open>None\<close> here). The address comes with the id.
\<close>

definition obj_id :: "obj \<Rightarrow> string option" where
  "obj_id ob =
     (case ob of
        OItem it \<Rightarrow> Some (i_id it)
      | OCategory c \<Rightarrow> Some (c_id c)
      | OSaveFrame f \<Rightarrow> Some (sf_id f)
      | ODataBlock d \<Rightarrow> Some (db_id d)
      | OCifFile _ \<Rightarrow> None)"

definition attr_id :: "state \<Rightarrow> pyval \<Rightarrow> (addr \<times> string) option" where
  "attr_id s v =
     (case v of
        PRef a \<Rightarrow>
          (case lookup s a of
             Some ob \<Rightarrow> (case obj_id ob of Some n \<Rightarrow> Some (a, n) | None \<Rightarrow> None)
           | None \<Rightarrow> None)
      | _ \<Rightarrow> None)"

text \<open>\<open>x.value\<close>: only Item objects have it.\<close>

definition attr_value :: "state \<Rightarrow> addr \<Rightarrow> pyval option" where
  "attr_value s a = (case lookup s a of Some (OItem it) \<Rightarrow> Some (i_value it) | _ \<Rightarrow> None)"

definition is_list :: "pyval \<Rightarrow> bool" where
  "is_list v = (case v of PList _ \<Rightarrow> True | _ \<Rightarrow> False)"

section \<open>Item\<close>

text \<open>
  \<open>Item.__init__(item_name, parent)\<close>: the new object registers itself in
  \<open>parent.items\<close> under its id, replacing whatever was registered there.
\<close>

definition Item_init :: "string \<Rightarrow> addr \<Rightarrow> state \<Rightarrow> (pyerr + addr) \<times> state" where
  "Item_init item_name parent s =
     (let (a, s1) = alloc (OItem \<lparr>i_value = PNone, i_type = PStrClass, i_mandatory = False,
                                 i_isColumn = False, i_id = item_name, i_name = item_name,
                                 i_lineno = PInt (- 1), i_parent = parent\<rparr>) s
      in case lookup s1 parent of
           Some (OCategory c) \<Rightarrow>
             (Inr a, store parent (OCategory (c\<lparr>c_items := dict_set item_name a (c_items c)\<rparr>)) s1)
         | _ \<Rightarrow> (Inl AttributeError, s1))"

text \<open>\<open>self.parent.isTable = True\<close>.\<close>

definition set_parent_isTable :: "addr \<Rightarrow> state \<Rightarrow> state" where
  "set_parent_isTable p s =
     (case lookup s p of
        Some (OCategory c) \<Rightarrow> store p (OCategory (c\<lparr>c_isTable := True\<rparr>)) s
      | _ \<Rightarrow> s)"

text \<open>
  \<open>Item.setValue(item_value, item_type, lineno)\<close>. In the last branch each
  \<open>append\<close> is looked up on the field as it is: a field that is not a list raises
  AttributeError, after the appends before it have happened.
\<close>

definition Item_setValue ::
    "addr \<Rightarrow> pyval \<Rightarrow> pyval \<Rightarrow> pyval \<Rightarrow> state \<Rightarrow> (pyerr + unit) \<times> state" where
  "Item_setValue a item_value item_type lineno s =
     (case lookup s a of
        Some (OItem it) \<Rightarrow>
          if i_value it = PNone \<and> \<not> i_isColumn it then
            (case item_value of
               PList xs \<Rightarrow>
                 if length xs = 1 then (Inr (), store a (OItem (it\<lparr>i_value := hd xs\<rparr>)) s)
                 else if length xs > 1 then
                   (Inr (), set_parent_isTable (i_parent it)
                              (store a (OItem (it\<lparr>i_value := item_value, i_isColumn := True\<rparr>)) s))
                 else
                   (Inr (), store a (OItem (it\<lparr>i_value := item_value, i_type := item_type,
                                                i_lineno := lineno\<rparr>)) s)
             | _ \<Rightarrow>
                 (Inr (), store a (OItem (it\<lparr>i_value := item_value, i_type := item_type,
                                              i_lineno := lineno\<rparr>)) s))
          else if i_value it \<noteq> PNone \<and> \<not> i_isColumn it then
            (Inr (), set_parent_isTable (i_parent it)
                       (store a (OItem (it\<lparr>i_value := PList [i_value it, item_value],
                                            i_type := PList [i_type it, item_type],
                                            i_lineno := PList [i_lineno it, lineno],
                                            i_isColumn := True\<rparr>)) s))
          else
            (case i_value it of
               PList vs \<Rightarrow>
                 (let it1 = it\<lparr>i_value := PList (vs @ [item_value])\<rparr>;
                      s1 = store a (OItem it1) s
                  in case i_type it1 of
                       PList ts \<Rightarrow>
                         (let it2 = it1\<lparr>i_type := PList (ts @ [item_type])\<rparr>;
                              s2 = store a (OItem it2) s1
                          in case i_lineno it2 of
                               PList ls \<Rightarrow>
                                 (Inr (), store a (OItem (it2\<lparr>i_lineno := PList (ls @ [lineno])\<rparr>)) s2)
                             | _ \<Rightarrow> (Inl AttributeError, s2))
                     | _ \<Rightarrow> (Inl AttributeError, s1))
             | _ \<Rightarrow> (Inl AttributeError, s))
      | _ \<Rightarrow> (Inl AttributeError, s))"

text \<open>\<open>Item.getRawValue()\<close>.\<close>

definition Item_getRawValue :: "addr \<Rightarrow> state \<Rightarrow> pyval option" where
  "Item_getRawValue a s = attr_value s a"

text \<open>Reading the fields \<open>isColumn\<close>, \<open>type\<close> and \<open>lineno\<close> of an Item.\<close>

definition Item_isColumn :: "addr \<Rightarrow> state \<Rightarrow> bool option" where
  "Item_isColumn a s = (case lookup s a of Some (OItem it) \<Rightarrow> Some (i_isColumn it) | _ \<Rightarrow> None)"

definition Item_type :: "addr \<Rightarrow> state \<Rightarrow> pyval option" where
  "Item_type a s = (case lookup s a of Some (OItem it) \<Rightarrow> Some (i_type it) | _ \<Rightarrow> None)"

definition Item_lineno :: "addr \<Rightarrow> state \<Rightarrow> pyval option" where
  "Item_lineno a s = (case lookup s a of Some (OItem it) \<Rightarrow> Some (i_lineno it) | _ \<Rightarrow> None)"

text \<open>A run of \<open>setValue\<close> calls on one Item, stopping at the first exception.\<close>

fun setValues :: "addr \<Rightarrow> (pyval \<times> pyval \<times> pyval) list \<Rightarrow> state \<Rightarrow> (pyerr + unit) \<times> state" where
  "setValues a [] s = (Inr (), s)"
| "setValues a ((v, t, l) # rest) s =
     (case Item_setValue a v t l s of
        (Inl e, s1) \<Rightarrow> (Inl e, s1)
      | (Inr _, s1) \<Rightarrow> setValues a rest s1)"

section \<open>Category\<close>

text \<open>\<open>Category.__init__(category_id, parent)\<close>: registers itself in \<open>parent.categories\<close>.\<close>

definition Category_init :: "string \<Rightarrow> addr \<Rightarrow> state \<Rightarrow> (pyerr + addr) \<times> state" where
  "Category_init category_id parent s =
     (let cid = lstrip_underscore category_id;
          (a, s1) = alloc (OCategory \<lparr>c_items = [], c_recycleBin = [], c_isTable = False,
                                      c_id = cid, c_maxTagLength = 0, c_parent = parent\<rparr>) s
      in case lookup s1 parent of
           Some (ODataBlock d) \<Rightarrow>
             (Inr a, store parent (ODataBlock (d\<lparr>db_categories := dict_set cid a (db_categories d)\<rparr>)) s1)
         | Some (OSaveFrame f) \<Rightarrow>
             (Inr a, store parent (OSaveFrame (f\<lparr>sf_categories := dict_set cid a (sf_categories f)\<rparr>)) s1)
         | _ \<Rightarrow> (Inl AttributeError, s1))"

text \<open>
  The part of \<open>Category.setItem\<close> after the first \<open>try\<close>: the tag length (where
  \<open>item.id\<close> raising AttributeError returns \<open>None\<close>), the table flag (where
  \<open>item.value\<close> is read outside any \<open>try\<close>) and \<open>self.items.setdefault\<close>.
\<close>

definition setItem_register :: "addr \<Rightarrow> pyval \<Rightarrow> state \<Rightarrow> (pyerr + pyval) \<times> state" where
  "setItem_register c item s =
     (case lookup s c of
        Some (OCategory cat) \<Rightarrow>
          (case attr_id s item of
             None \<Rightarrow> (Inr PNone, s)
           | Some (a, iid) \<Rightarrow>
               (let n = length (''_'' @ c_id cat @ iid);
                    cat1 = cat\<lparr>c_maxTagLength :=
                                 (if n > c_maxTagLength cat then n else c_maxTagLength cat)\<rparr>;
                    s1 = store c (OCategory cat1) s
                in case attr_value s1 a of
                     None \<Rightarrow> (Inl AttributeError, s1)
                   | Some v \<Rightarrow>
                       (let cat2 = (if v \<noteq> PNone \<and> is_list v \<and> \<not> c_isTable cat1
                                    then cat1\<lparr>c_isTable := True\<rparr> else cat1);
                            (r, d) = dict_setdefault iid a (c_items cat2)
                        in (Inr (PRef r), store c (OCategory (cat2\<lparr>c_items := d\<rparr>)) s1))))
      | _ \<Rightarrow> (Inl AttributeError, s))"

text \<open>
  \<open>Category.setItem(item)\<close>. \<open>item.isalnum()\<close> succeeds on a string. On the class
  \<open>str\<close> it is the unbound method called without an argument: TypeError, which the
  \<open>except AttributeError\<close> does not catch. Any other argument has no such attribute; its
  AttributeError is caught and the argument is kept. The other four construct-or-fetch
  methods begin the same way.
\<close>

definition Category_setItem :: "addr \<Rightarrow> pyval \<Rightarrow> state \<Rightarrow> (pyerr + pyval) \<times> state" where
  "Category_setItem c item s =
     (case lookup s c of
        Some (OCategory cat) \<Rightarrow>
          (case item of
             PStr n \<Rightarrow>
               (case map_of (c_items cat) n of
                  None \<Rightarrow>
                    (case Item_init n c s of
                       (Inr a, s1) \<Rightarrow> setItem_register c (PRef a) s1
                     | (Inl AttributeError, s1) \<Rightarrow> setItem_register c item s1
                     | (Inl e, s1) \<Rightarrow> (Inl e, s1))
                | Some a \<Rightarrow> setItem_register c (PRef a) s)
           | PStrClass \<Rightarrow> (Inl TypeError, s)
           | _ \<Rightarrow> setItem_register c item s)
      | _ \<Rightarrow> (Inl AttributeError, s))"

definition Category_getItem :: "addr \<Rightarrow> string \<Rightarrow> state \<Rightarrow> addr option" where
  "Category_getItem c item_name s =
     (case lookup s c of Some (OCategory cat) \<Rightarrow> map_of (c_items cat) item_name | _ \<Rightarrow> None)"

definition Category_getItemNames :: "addr \<Rightarrow> state \<Rightarrow> string list" where
  "Category_getItemNames c s =
     (case lookup s c of Some (OCategory cat) \<Rightarrow> map fst (c_items cat) | _ \<Rightarrow> [])"

definition Category_getItems :: "addr \<Rightarrow> state \<Rightarrow> addr list" where
  "Category_getItems c s =
     (case lookup s c of Some (OCategory cat) \<Rightarrow> map snd (c_items cat) | _ \<Rightarrow> [])"

definition Category_isTable :: "addr \<Rightarrow> state \<Rightarrow> bool option" where
  "Category_isTable c s = (case lookup s c of Some (OCategory cat) \<Rightarrow> Some (c_isTable cat) | _ \<Rightarrow> None)"

definition Category_recycleBin :: "addr \<Rightarrow> state \<Rightarrow> dict" where
  "Category_recycleBin c s =
     (case lookup s c of Some (OCategory cat) \<Rightarrow> c_recycleBin cat | _ \<Rightarrow> [])"

text \<open>
  \<open>child in self.items\<close> for a child without \<open>id\<close>: a list or a dictionary is not
  hashable (TypeError); a string is looked up; any other value is not a key.
\<close>

definition key_of_child :: "pyval \<Rightarrow> pyerr + string option" where
  "key_of_child child =
     (case child of
        PStr n \<Rightarrow> Inr (Some n)
      | PList _ \<Rightarrow> Inl TypeError
      | PDict _ \<Rightarrow> Inl TypeError
      | _ \<Rightarrow> Inr None)"

text \<open>
  The body shared by the \<open>removeChild\<close> of Category, SaveFrame and CifFile, on the
  live dictionary and the recycle bin: the key is \<open>child.id\<close> or, when that raises
  AttributeError, the child itself.
\<close>

definition remove_from :: "state \<Rightarrow> pyval \<Rightarrow> dict \<Rightarrow> dict \<Rightarrow> pyerr + (bool \<times> dict \<times> dict)" where
  "remove_from s child live bin =
     (case attr_id s child of
        Some (a, k) \<Rightarrow>
          (case map_of live k of
             Some x \<Rightarrow> Inr (True, dict_pop k live, dict_set k x bin)
           | None \<Rightarrow> Inr (False, live, bin))
      | None \<Rightarrow>
          (case key_of_child child of
             Inl e \<Rightarrow> Inl e
           | Inr None \<Rightarrow> Inr (False, live, bin)
           | Inr (Some k) \<Rightarrow>
               (case map_of live k of
                  Some x \<Rightarrow> Inr (True, dict_pop k live, dict_set k x bin)
                | None \<Rightarrow> Inr (False, live, bin))))"

definition Category_removeChild :: "addr \<Rightarrow> pyval \<Rightarrow> state \<Rightarrow> (pyerr + bool) \<times> state" where
  "Category_removeChild c child s =
     (case lookup s c of
        Some (OCategory cat) \<Rightarrow>
          (case remove_from s child (c_items cat) (c_recycleBin cat) of
             Inl e \<Rightarrow> (Inl e, s)
           | Inr (b, live, bin) \<Rightarrow>
               (Inr b, store c (OCategory (cat\<lparr>c_items := live, c_recycleBin := bin\<rparr>)) s))
      | _ \<Rightarrow> (Inl AttributeError, s))"

section \<open>SaveFrame\<close>

text \<open>\<open>SaveFrame.__init__(saveFrame_id, parent)\<close>: registers itself in \<open>parent.saveFrames\<close>.\<close>

definition SaveFrame_init :: "string \<Rightarrow> addr \<Rightarrow> state \<Rightarrow> (pyerr + addr) \<times> state" where
  "SaveFrame_init saveFrame_id parent s =
     (let (a, s1) = alloc (OSaveFrame \<lparr>sf_id = saveFrame_id, sf_categories = [],
                                       sf_recycleBin = [], sf_parent = parent\<rparr>) s
      in case lookup s1 parent of
           Some (ODataBlock d) \<Rightarrow>
             (Inr a, store parent (ODataBlock (d\<lparr>db_saveFrames := dict_set saveFrame_id a (db_saveFrames d)\<rparr>)) s1)
         | _ \<Rightarrow> (Inl AttributeError, s1))"

definition SaveFrame_updateId :: "addr \<Rightarrow> string \<Rightarrow> state \<Rightarrow> state" where
  "SaveFrame_updateId f saveFrame_id s =
     (case lookup s f of
        Some (OSaveFrame sf) \<Rightarrow> store f (OSaveFrame (sf\<lparr>sf_id := saveFrame_id\<rparr>)) s
      | _ \<Rightarrow> s)"

text \<open>
  The last line of \<open>SaveFrame.setCategory\<close>:
  \<open>return self.categories.setdefault(category.id, category)\<close>, where \<open>category.id\<close>
  is read outside any \<open>try\<close>.
\<close>

definition sf_setCategory_register :: "addr \<Rightarrow> pyval \<Rightarrow> state \<Rightarrow> (pyerr + pyval) \<times> state" where
  "sf_setCategory_register f category s =
     (case lookup s f of
        Some (OSaveFrame sf) \<Rightarrow>
          (case attr_id s category of
             None \<Rightarrow> (Inl AttributeError, s)
           | Some (a, cid) \<Rightarrow>
               (let (r, d) = dict_setdefault cid a (sf_categories sf)
                in (Inr (PRef r), store f (OSaveFrame (sf\<lparr>sf_categories := d\<rparr>)) s)))
      | _ \<Rightarrow> (Inl AttributeError, s))"

definition SaveFrame_setCategory :: "addr \<Rightarrow> pyval \<Rightarrow> state \<Rightarrow> (pyerr + pyval) \<times> state" where
  "SaveFrame_setCategory f category s =
     (case lookup s f of
        Some (OSaveFrame sf) \<Rightarrow>
          (case category of
             PStr n \<Rightarrow>
               (case map_of (sf_categories sf) (lstrip_underscore n) of
                  None \<Rightarrow>
                    (case Category_init (lstrip_underscore n) f s of
                       (Inr a, s1) \<Rightarrow> sf_setCategory_register f (PRef a) s1
                     | (Inl AttributeError, s1) \<Rightarrow> sf_setCategory_register f category s1
                     | (Inl e, s1) \<Rightarrow> (Inl e, s1))
                | Some a \<Rightarrow> sf_setCategory_register f (PRef a) s)
           | PStrClass \<Rightarrow> (Inl TypeError, s)
           | _ \<Rightarrow> sf_setCategory_register f category s)
      | _ \<Rightarrow> (Inl AttributeError, s))"

definition SaveFrame_getCategory :: "addr \<Rightarrow> string \<Rightarrow> state \<Rightarrow> addr option" where
  "SaveFrame_getCategory f category s =
     (case lookup s f of
        Some (OSaveFrame sf) \<Rightarrow> map_of (sf_categories sf) (lstrip_underscore category)
      | _ \<Rightarrow> None)"

definition SaveFrame_getCategoryIds :: "addr \<Rightarrow> state \<Rightarrow> string list" where
  "SaveFrame_getCategoryIds f s =
     (case lookup s f of Some (OSaveFrame sf) \<Rightarrow> map fst (sf_categories sf) | _ \<Rightarrow> [])"

definition SaveFrame_getCategories :: "addr \<Rightarrow> state \<Rightarrow> addr list" where
  "SaveFrame_getCategories f s =
     (case lookup s f of Some (OSaveFrame sf) \<Rightarrow> map snd (sf_categories sf) | _ \<Rightarrow> [])"

definition SaveFrame_recycleBin :: "addr \<Rightarrow> state \<Rightarrow> dict" where
  "SaveFrame_recycleBin f s =
     (case lookup s f of Some (OSaveFrame sf) \<Rightarrow> sf_recycleBin sf | _ \<Rightarrow> [])"

definition SaveFrame_removeChild :: "addr \<Rightarrow> pyval \<Rightarrow> state \<Rightarrow> (pyerr + bool) \<times> state" where
  "SaveFrame_removeChild f child s =
     (case lookup s f of
        Some (OSaveFrame sf) \<Rightarrow>
          (case remove_from s child (sf_categories sf) (sf_recycleBin sf) of
             Inl e \<Rightarrow> (Inl e, s)
           | Inr (b, live, bin) \<Rightarrow>
               (Inr b, store f (OSaveFrame (sf\<lparr>sf_categories := live, sf_recycleBin := bin\<rparr>)) s))
      | _ \<Rightarrow> (Inl AttributeError, s))"

section \<open>DataBlock\<close>

text \<open>\<open>DataBlock.__init__(block_id, parent)\<close>: registers itself in \<open>parent.data_blocks\<close>.\<close>

definition DataBlock_init :: "string \<Rightarrow> addr \<Rightarrow> state \<Rightarrow> (pyerr + addr) \<times> state" where
  "DataBlock_init block_id parent s =
     (let (a, s1) = alloc (ODataBlock \<lparr>db_id = block_id, db_categories = [], db_saveFrames = [],
                                       db_recycleBin = [], db_parent = parent\<rparr>) s
      in case lookup s1 parent of
           Some (OCifFile cf) \<Rightarrow>
             (Inr a, store parent (OCifFile (cf\<lparr>f_data_blocks := dict_set block_id a (f_data_blocks cf)\<rparr>)) s1)
         | _ \<Rightarrow> (Inl AttributeError, s1))"

definition DataBlock_updateId :: "addr \<Rightarrow> string \<Rightarrow> state \<Rightarrow> state" where
  "DataBlock_updateId d block_id s =
     (case lookup s d of
        Some (ODataBlock db) \<Rightarrow> store d (ODataBlock (db\<lparr>db_id := block_id\<rparr>)) s
      | _ \<Rightarrow> s)"

definition db_setCategory_register :: "addr \<Rightarrow> pyval \<Rightarrow> state \<Rightarrow> (pyerr + pyval) \<times> state" where
  "db_setCategory_register d category s =
     (case lookup s d of
        Some (ODataBlock db) \<Rightarrow>
          (case attr_id s category of
             None \<Rightarrow> (Inl AttributeError, s)
           | Some (a, cid) \<Rightarrow>
               (let (r, dc) = dict_setdefault cid a (db_categories db)
                in (Inr (PRef r), store d (ODataBlock (db\<lparr>db_categories := dc\<rparr>)) s)))
      | _ \<Rightarrow> (Inl AttributeError, s))"

definition DataBlock_setCategory :: "addr \<Rightarrow> pyval \<Rightarrow> state \<Rightarrow> (pyerr + pyval) \<times> state" where
  "DataBlock_setCategory d category s =
     (case lookup s d of
        Some (ODataBlock db) \<Rightarrow>
          (case category of
             PStr n \<Rightarrow>
               (case map_of (db_categories db) (lstrip_underscore n) of
                  None \<Rightarrow>
                    (case Category_init (lstrip_underscore n) d s of
                       (Inr a, s1) \<Rightarrow> db_setCategory_register d (PRef a) s1
                     | (Inl AttributeError, s1) \<Rightarrow> db_setCategory_register d category s1
                     | (Inl e, s1) \<Rightarrow> (Inl e, s1))
                | Some a \<Rightarrow> db_setCategory_register d (PRef a) s)
           | PStrClass \<Rightarrow> (Inl TypeError, s)
           | _ \<Rightarrow> db_setCategory_register d category s)
      | _ \<Rightarrow> (Inl AttributeError, s))"

definition db_setSaveFrame_register :: "addr \<Rightarrow> pyval \<Rightarrow> state \<Rightarrow> (pyerr + pyval) \<times> state" where
  "db_setSaveFrame_register d saveFrame s =
     (case lookup s d of
        Some (ODataBlock db) \<Rightarrow>
          (case attr_id s saveFrame of
             None \<Rightarrow> (Inl AttributeError, s)
           | Some (a, fid) \<Rightarrow>
               (let (r, ds) = dict_setdefault fid a (db_saveFrames db)
                in (Inr (PRef r), store d (ODataBlock (db\<lparr>db_saveFrames := ds\<rparr>)) s)))
      | _ \<Rightarrow> (Inl AttributeError, s))"

definition DataBlock_setSaveFrame :: "addr \<Rightarrow> pyval \<Rightarrow> state \<Rightarrow> (pyerr + pyval) \<times> state" where
  "DataBlock_setSaveFrame d saveFrame s =
     (case lookup s d of
        Some (ODataBlock db) \<Rightarrow>
          (case saveFrame of
             PStr n \<Rightarrow>
               (case map_of (db_saveFrames db) n of
                  None \<Rightarrow>
                    (case SaveFrame_init n d s of
                       (Inr a, s1) \<Rightarrow> db_setSaveFrame_register d (PRef a) s1
                     | (Inl AttributeError, s1) \<Rightarrow> db_setSaveFrame_register d saveFrame s1
                     | (Inl e, s1) \<Rightarrow> (Inl e, s1))
                | Some a \<Rightarrow> db_setSaveFrame_register d (PRef a) s)
           | PStrClass \<Rightarrow> (Inl TypeError, s)
           | _ \<Rightarrow> db_setSaveFrame_register d saveFrame s)
      | _ \<Rightarrow> (Inl AttributeError, s))"

definition DataBlock_getCategory :: "addr \<Rightarrow> string \<Rightarrow> state \<Rightarrow> addr option" where
  "DataBlock_getCategory d category s =
     (case lookup s d of
        Some (ODataBlock db) \<Rightarrow> map_of (db_categories db) (lstrip_underscore category)
      | _ \<Rightarrow> None)"

definition DataBlock_getSaveFrame :: "addr \<Rightarrow> string \<Rightarrow> state \<Rightarrow> addr option" where
  "DataBlock_getSaveFrame d saveFrameId s =
     (case lookup s d of Some (ODataBlock db) \<Rightarrow> map_of (db_saveFrames db) saveFrameId | _ \<Rightarrow> None)"

definition DataBlock_getCategoryIds :: "addr \<Rightarrow> state \<Rightarrow> string list" where
  "DataBlock_getCategoryIds d s =
     (case lookup s d of Some (ODataBlock db) \<Rightarrow> map fst (db_categories db) | _ \<Rightarrow> [])"

definition DataBlock_getCategories :: "addr \<Rightarrow> state \<Rightarrow> addr list" where
  "DataBlock_getCategories d s =
     (case lookup s d of Some (ODataBlock db) \<Rightarrow> map snd (db_categories db) | _ \<Rightarrow> [])"

definition DataBlock_getSaveFrameIds :: "addr \<Rightarrow> state \<Rightarrow> string list" where
  "DataBlock_getSaveFrameIds d s =
     (case lookup s d of Some (ODataBlock db) \<Rightarrow> map fst (db_saveFrames db) | _ \<Rightarrow> [])"

definition DataBlock_getSaveFrames :: "addr \<Rightarrow> state \<Rightarrow> addr list" where
  "DataBlock_getSaveFrames d s =
     (case lookup s d of Some (ODataBlock db) \<Rightarrow> map snd (db_saveFrames db) | _ \<Rightarrow> [])"

definition DataBlock_recycleBin :: "addr \<Rightarrow> state \<Rightarrow> dict" where
  "DataBlock_recycleBin d s =
     (case lookup s d of Some (ODataBlock db) \<Rightarrow> db_recycleBin db | _ \<Rightarrow> [])"

text \<open>\<open>isinstance(child, Category)\<close> and \<open>isinstance(child, SaveFrame)\<close>, with \<open>child.id\<close>.\<close>

definition as_Category :: "state \<Rightarrow> pyval \<Rightarrow> string option" where
  "as_Category s child =
     (case child of
        PRef a \<Rightarrow> (case lookup s a of Some (OCategory c) \<Rightarrow> Some (c_id c) | _ \<Rightarrow> None)
      | _ \<Rightarrow> None)"

definition as_SaveFrame :: "state \<Rightarrow> pyval \<Rightarrow> string option" where
  "as_SaveFrame s child =
     (case child of
        PRef a \<Rightarrow> (case lookup s a of Some (OSaveFrame f) \<Rightarrow> Some (sf_id f) | _ \<Rightarrow> None)
      | _ \<Rightarrow> None)"

text \<open>\<open>" and ".join(removed)\<close>.\<close>

fun join_and :: "string list \<Rightarrow> string" where
  "join_and [] = []"
| "join_and [x] = x"
| "join_and (x # y # zs) = x @ '' and '' @ join_and (y # zs)"

text \<open>
  The string branch of \<open>DataBlock.removeChild\<close> (lines 554 to 569), entered when the
  stripped name is a category or the name is a save frame. The save frame is looked at
  only when the stripped name is not a category (\<open>elif\<close>).
\<close>

definition db_remove_by_name :: "addr \<Rightarrow> datablock \<Rightarrow> string \<Rightarrow> state \<Rightarrow> (pyerr + bool) \<times> state" where
  "db_remove_by_name d db child s =
     (let child_as_cat = lstrip_underscore child;
          (removed, db1) =
            (case map_of (db_categories db) child_as_cat of
               Some x \<Rightarrow>
                 ([''categories''],
                  db\<lparr>db_categories := dict_pop child_as_cat (db_categories db),
                     db_recycleBin := dict_set child_as_cat x (db_recycleBin db)\<rparr>)
             | None \<Rightarrow>
                 (case map_of (db_saveFrames db) child of
                    Some y \<Rightarrow>
                      ([''saveFrames''],
                       db\<lparr>db_saveFrames := dict_pop child (db_saveFrames db),
                          db_recycleBin := dict_set child y (db_recycleBin db)\<rparr>)
                  | None \<Rightarrow> ([], db)));
          s1 = store d (ODataBlock db1) s
      in if length removed > 0 then
           (Inr True,
            print (LogStr (''Warning: '' @ [sq] @ child @ [sq] @ '' removed from ''
                           @ join_and removed)) s1)
         else (Inr False, s1))"

text \<open>\<open>DataBlock.removeChild(child)\<close>, branch by branch.\<close>

definition DataBlock_removeChild :: "addr \<Rightarrow> pyval \<Rightarrow> state \<Rightarrow> (pyerr + bool) \<times> state" where
  "DataBlock_removeChild d child s =
     (case lookup s d of
        Some (ODataBlock db) \<Rightarrow>
          (case (case as_Category s child of
                   Some k \<Rightarrow> (case map_of (db_categories db) k of Some x \<Rightarrow> Some (k, x) | None \<Rightarrow> None)
                 | None \<Rightarrow> None) of
             Some (k, x) \<Rightarrow>
               (Inr True,
                store d (ODataBlock (db\<lparr>db_categories := dict_pop k (db_categories db),
                                         db_recycleBin := dict_set k x (db_recycleBin db)\<rparr>)) s)
           | None \<Rightarrow>
               (case (case as_SaveFrame s child of
                        Some k \<Rightarrow> (case map_of (db_saveFrames db) k of Some x \<Rightarrow> Some (k, x) | None \<Rightarrow> None)
                      | None \<Rightarrow> None) of
                  Some (k, x) \<Rightarrow>
                    (Inr True,
                     store d (ODataBlock (db\<lparr>db_saveFrames := dict_pop k (db_saveFrames db),
                                              db_recycleBin := dict_set k x (db_recycleBin db)\<rparr>)) s)
                | None \<Rightarrow>
                    (case child of
                       PStr n \<Rightarrow>
                         if dict_has (db_categories db) (lstrip_underscore n)
                            \<or> dict_has (db_saveFrames db) n
                         then db_remove_by_name d db n s
                         else (Inr False, s)
                     | _ \<Rightarrow> (Inr False, s))))
      | _ \<Rightarrow> (Inl AttributeError, s))"

section \<open>CifFile\<close>

definition CifFile_setDataBlock_register :: "addr \<Rightarrow> pyval \<Rightarrow> state \<Rightarrow> (pyerr + pyval) \<times> state" where
  "CifFile_setDataBlock_register f datablock s =
     (case lookup s f of
        Some (OCifFile cf) \<Rightarrow>
          (case attr_id s datablock of
             None \<Rightarrow> (Inl AttributeError, s)
           | Some (a, bid) \<Rightarrow>
               (let (r, d) = dict_setdefault bid a (f_data_blocks cf)
                in (Inr (PRef r), store f (OCifFile (cf\<lparr>f_data_blocks := d\<rparr>)) s)))
      | _ \<Rightarrow> (Inl AttributeError, s))"

definition CifFile_setDataBlock :: "addr \<Rightarrow> pyval \<Rightarrow> state \<Rightarrow> (pyerr + pyval) \<times> state" where
  "CifFile_setDataBlock f datablock s =
     (case lookup s f of
        Some (OCifFile cf) \<Rightarrow>
          (case datablock of
             PStr n \<Rightarrow>
               (case map_of (f_data_blocks cf) n of
                  None \<Rightarrow>
                    (case DataBlock_init n f s of
                       (Inr a, s1) \<Rightarrow> CifFile_setDataBlock_register f (PRef a) s1
                     | (Inl AttributeError, s1) \<Rightarrow> CifFile_setDataBlock_register f datablock s1
                     | (Inl e, s1) \<Rightarrow> (Inl e, s1))
                | Some a \<Rightarrow> CifFile_setDataBlock_register f (PRef a) s)
           | PStrClass \<Rightarrow> (Inl TypeError, s)
           | _ \<Rightarrow> CifFile_setDataBlock_register f datablock s)
      | _ \<Rightarrow> (Inl AttributeError, s))"

definition CifFile_getDataBlock :: "addr \<Rightarrow> string \<Rightarrow> state \<Rightarrow> addr option" where
  "CifFile_getDataBlock f dataBlockId s =
     (case lookup s f of Some (OCifFile cf) \<Rightarrow> map_of (f_data_blocks cf) dataBlockId | _ \<Rightarrow> None)"

definition CifFile_getDataBlockIds :: "addr \<Rightarrow> state \<Rightarrow> string list" where
  "CifFile_getDataBlockIds f s =
     (case lookup s f of Some (OCifFile cf) \<Rightarrow> map fst (f_data_blocks cf) | _ \<Rightarrow> [])"

definition CifFile_getDataBlocks :: "addr \<Rightarrow> state \<Rightarrow> addr list" where
  "CifFile_getDataBlocks f s =
     (case lookup s f of Some (OCifFile cf) \<Rightarrow> map snd (f_data_blocks cf) | _ \<Rightarrow> [])"

definition CifFile_recycleBin :: "addr \<Rightarrow> state \<Rightarrow> dict" where
  "CifFile_recycleBin f s =
     (case lookup s f of Some (OCifFile cf) \<Rightarrow> f_recycleBin cf | _ \<Rightarrow> [])"

definition CifFile_removeChild :: "addr \<Rightarrow> pyval \<Rightarrow> state \<Rightarrow> (pyerr + bool) \<times> state" where
  "CifFile_removeChild f child s =
     (case lookup s f of
        Some (OCifFile cf) \<Rightarrow>
          (case remove_from s child (f_data_blocks cf) (f_recycleBin cf) of
             Inl e \<Rightarrow> (Inl e, s)
           | Inr (b, live, bin) \<Rightarrow>
               (Inr b, store f (OCifFile (cf\<lparr>f_data_blocks := live, f_recycleBin := bin\<rparr>)) s))
      | _ \<Rightarrow> (Inl AttributeError, s))"

subsection \<open>Bulk import\<close>

text \<open>
  Method calls of \<open>import_mmcif_data_map\<close> on whatever the previous call returned: a
  value without the method raises AttributeError.
\<close>

definition call_setCategory :: "pyval \<Rightarrow> pyval \<Rightarrow> state \<Rightarrow> (pyerr + pyval) \<times> state" where
  "call_setCategory ob arg s =
     (case ob of
        PRef a \<Rightarrow>
          (case lookup s a of
             Some (ODataBlock _) \<Rightarrow> DataBlock_setCategory a arg s
           | Some (OSaveFrame _) \<Rightarrow> SaveFrame_setCategory a arg s
           | _ \<Rightarrow> (Inl AttributeError, s))
      | _ \<Rightarrow> (Inl AttributeError, s))"

definition call_setItem :: "pyval \<Rightarrow> pyval \<Rightarrow> state \<Rightarrow> (pyerr + pyval) \<times> state" where
  "call_setItem ob arg s =
     (case ob of
        PRef a \<Rightarrow>
          (case lookup s a of
             Some (OCategory _) \<Rightarrow> Category_setItem a arg s
           | _ \<Rightarrow> (Inl AttributeError, s))
      | _ \<Rightarrow> (Inl AttributeError, s))"

text \<open>\<open>x.setValue(value)\<close> with the defaults \<open>item_type='DEFAULTSTRING'\<close>, \<open>lineno=-1\<close>.\<close>

definition call_setValue :: "pyval \<Rightarrow> pyval \<Rightarrow> state \<Rightarrow> (pyerr + unit) \<times> state" where
  "call_setValue ob v s =
     (case ob of
        PRef a \<Rightarrow> Item_setValue a v (PStr ''DEFAULTSTRING'') (PInt (- 1)) s
      | _ \<Rightarrow> (Inl AttributeError, s))"

text \<open>
  \<open>x.items()\<close>: the pairs of a dictionary. A Category has an attribute \<open>items\<close> that
  is a dictionary and cannot be called (TypeError); any other value has no such
  attribute.
\<close>

definition py_items :: "state \<Rightarrow> pyval \<Rightarrow> pyerr + (pyval \<times> pyval) list" where
  "py_items s v =
     (case v of
        PDict kvs \<Rightarrow> Inr kvs
      | PRef a \<Rightarrow> (case lookup s a of Some (OCategory _) \<Rightarrow> Inl TypeError | _ \<Rightarrow> Inl AttributeError)
      | _ \<Rightarrow> Inl AttributeError)"

text \<open>The innermost loop (lines 629 to 630), stopping at the first exception.\<close>

fun import_items :: "pyval \<Rightarrow> (pyval \<times> pyval) list \<Rightarrow> state \<Rightarrow> pyerr option \<times> state" where
  "import_items category_obj [] s = (None, s)"
| "import_items category_obj ((item, v) # rest) s =
     (case call_setItem category_obj item s of
        (Inl e, s1) \<Rightarrow> (Some e, s1)
      | (Inr it, s1) \<Rightarrow>
          (case call_setValue it v s1 of
             (Inl e, s2) \<Rightarrow> (Some e, s2)
           | (Inr _, s2) \<Rightarrow> import_items category_obj rest s2))"

text \<open>The \<open>try\<close> block of lines 628 to 630.\<close>

definition import_try :: "pyval \<Rightarrow> pyval \<Rightarrow> state \<Rightarrow> pyerr option \<times> state" where
  "import_try category_obj items_and_values s =
     (case py_items s items_and_values of
        Inl e \<Rightarrow> (Some e, s)
      | Inr kvs \<Rightarrow> import_items category_obj kvs s)"

text \<open>
  The loop over the categories of one data block (lines 625 to 633): only an
  AttributeError raised inside the \<open>try\<close> is caught and printed.
\<close>

fun import_categories :: "pyval \<Rightarrow> (pyval \<times> pyval) list \<Rightarrow> state \<Rightarrow> pyerr option \<times> state" where
  "import_categories data_block_obj [] s = (None, s)"
| "import_categories data_block_obj ((category, items_and_values) # rest) s =
     (case call_setCategory data_block_obj category s of
        (Inl e, s1) \<Rightarrow> (Some e, s1)
      | (Inr category_obj, s1) \<Rightarrow>
          (case import_try category_obj items_and_values s1 of
             (None, s2) \<Rightarrow> import_categories data_block_obj rest s2
           | (Some AttributeError, s2) \<Rightarrow>
               import_categories data_block_obj rest
                 (print (LogVal items_and_values) (print (LogErr AttributeError) s2))
           | (Some e, s2) \<Rightarrow> (Some e, s2)))"

text \<open>
  The loop over the data blocks (lines 622 to 633): \<open>.items()\<close> of a block's value
  is called outside the \<open>try\<close>.
\<close>

fun import_blocks :: "addr \<Rightarrow> (pyval \<times> pyval) list \<Rightarrow> state \<Rightarrow> pyerr option \<times> state" where
  "import_blocks f [] s = (None, s)"
| "import_blocks f ((datablock_id, categories_items_and_values) # rest) s =
     (case CifFile_setDataBlock f datablock_id s of
        (Inl e, s1) \<Rightarrow> (Some e, s1)
      | (Inr data_block_obj, s1) \<Rightarrow>
          (case py_items s1 categories_items_and_values of
             Inl e \<Rightarrow> (Some e, s1)
           | Inr cats \<Rightarrow>
               (case import_categories data_block_obj cats s1 of
                  (Some e, s2) \<Rightarrow> (Some e, s2)
                | (None, s2) \<Rightarrow> import_blocks f rest s2)))"

text \<open>
  \<open>CifFile.import_mmcif_data_map(mmcif_data_map)\<close>; the result \<open>None\<close> is a normal
  return, \<open>Some e\<close> an exception that leaves the method.
\<close>

definition CifFile_import_mmcif_data_map :: "addr \<Rightarrow> pyval \<Rightarrow> state \<Rightarrow> pyerr option \<times> state" where
  "CifFile_import_mmcif_data_map f mmcif_data_map s =
     (case mmcif_data_map of
        PDict kvs \<Rightarrow>
          if kvs \<noteq> [] then import_blocks f kvs s
          else (None, print (LogStr ''Data import was unsuccessful. No data was supplied'') s)
      | _ \<Rightarrow> (None, print (LogStr ''Data import was unsuccessful. No data was supplied'') s))"

text \<open>\<open>CifFile(file_path, mmcif_data_map)\<close>.\<close>

definition CifFile_init :: "string option \<Rightarrow> pyval \<Rightarrow> state \<Rightarrow> (pyerr + addr) \<times> state" where
  "CifFile_init file_path mmcif_data_map s =
     (let (a, s1) = alloc (OCifFile \<lparr>f_data_blocks = [], f_recycleBin = [],
                                     f_file_path = file_path\<rparr>) s
      in if mmcif_data_map \<noteq> PNone then
           (case CifFile_import_mmcif_data_map a mmcif_data_map s1 of
              (Some e, s2) \<Rightarrow> (Inl e, s2)
            | (None, s2) \<Rightarrow> (Inr a, s2))
         else (Inr a, s1))"

text \<open>The empty program state: no object, nothing printed.\<close>

definition empty_state :: state where
  "empty_state = \<lparr>heap = [], out = []\<rparr>"

section \<open>Well-typed containers\<close>

text \<open>
  The classes of the objects behind references, and the containers whose live
  dictionary holds children of the class the container is written for.
\<close>

definition is_Item :: "state \<Rightarrow> addr \<Rightarrow> bool" where
  "is_Item s a = (case lookup s a of Some (OItem _) \<Rightarrow> True | _ \<Rightarrow> False)"

definition is_Category :: "state \<Rightarrow> addr \<Rightarrow> bool" where
  "is_Category s a = (case lookup s a of Some (OCategory _) \<Rightarrow> True | _ \<Rightarrow> False)"

definition is_SaveFrame :: "state \<Rightarrow> addr \<Rightarrow> bool" where
  "is_SaveFrame s a = (case lookup s a of Some (OSaveFrame _) \<Rightarrow> True | _ \<Rightarrow> False)"

definition is_DataBlock :: "state \<Rightarrow> addr \<Rightarrow> bool" where
  "is_DataBlock s a = (case lookup s a of Some (ODataBlock _) \<Rightarrow> True | _ \<Rightarrow> False)"

definition is_CifFile :: "state \<Rightarrow> addr \<Rightarrow> bool" where
  "is_CifFile s a = (case lookup s a of Some (OCifFile _) \<Rightarrow> True | _ \<Rightarrow> False)"

definition children_are :: "(state \<Rightarrow> addr \<Rightarrow> bool) \<Rightarrow> state \<Rightarrow> dict \<Rightarrow> bool" where
  "children_are P s d = list_all (\<lambda>(k, a). P s a) d"

definition Category_ok :: "state \<Rightarrow> addr \<Rightarrow> bool" where
  "Category_ok s c =
     (case lookup s c of
        Some (OCategory cat) \<Rightarrow> children_are is_Item s (c_items cat)
      | _ \<Rightarrow> False)"

definition SaveFrame_ok :: "state \<Rightarrow> addr \<Rightarrow> bool" where
  "SaveFrame_ok s f =
     (case lookup s f of
        Some (OSaveFrame sf) \<Rightarrow> children_are is_Category s (sf_categories sf)
      | _ \<Rightarrow> False)"

definition DataBlock_ok :: "state \<Rightarrow> addr \<Rightarrow> bool" where
  "DataBlock_ok s d =
     (case lookup s d of
        Some (ODataBlock db) \<Rightarrow>
          children_are is_Category s (db_categories db)
          \<and> children_are is_SaveFrame s (db_saveFrames db)
      | _ \<Rightarrow> False)"

definition CifFile_ok :: "state \<Rightarrow> addr \<Rightarrow> bool" where
  "CifFile_ok s f =
     (case lookup s f of
        Some (OCifFile cf) \<Rightarrow> children_are is_DataBlock s (f_data_blocks cf)
      | _ \<Rightarrow> False)"

section \<open>A small tree built through the interface\<close>

text \<open>
  \<open>f = CifFile()\<close>, \<open>d = f.setDataBlock("D")\<close>, \<open>c = d.setCategory("_c")\<close>,
  \<open>c.setItem("a")\<close>: the file is object 0, the data block 1, the category 2 and the
  item 3.
\<close>

definition tree_state :: state where
  "tree_state =
     snd (Category_setItem 2 (PStr ''a'')
       (snd (DataBlock_setCategory 1 (PStr ''_c'')
         (snd (CifFile_setDataBlock 0 (PStr ''D'')
           (snd (CifFile_init None PNone empty_state)))))))"

text \<open>
  The small tree with a save frame: \<open>d.setSaveFrame("S")\<close> is object 4 and its
  category, made by \<open>setCategory("k")\<close>, is object 5.
\<close>

definition dictionary_state :: state where
  "dictionary_state =
     snd (SaveFrame_setCategory 4 (PStr ''k'')
       (snd (DataBlock_setSaveFrame 1 (PStr ''S'') tree_state)))"

text \<open>
  A second tree beside it: \<open>g = CifFile()\<close> is object 6, \<open>g.setDataBlock("D")\<close> is 7,
  its category \<open>c\<close> is 8, its save frame \<open>S\<close> is 9 and the category \<open>k\<close> of that
  save frame is 10.
\<close>

definition two_trees_state :: state where
  "two_trees_state =
     snd (SaveFrame_setCategory 9 (PStr ''k'')
       (snd (DataBlock_setSaveFrame 7 (PStr ''S'')
         (snd (DataBlock_setCategory 7 (PStr ''c'')
           (snd (CifFile_setDataBlock 6 (PStr ''D'')
             (snd (CifFile_init None PNone dictionary_state)))))))))"

section \<open>Properties of construct-or-fetch, as predicates\<close>

text \<open>
  Calling \<open>op\<close> twice with the name \<open>n\<close> on container \<open>c\<close>, where \<open>get\<close> is the
  lookup of the container, \<open>ids\<close> and \<open>objs\<close> its live names and objects, and
  \<open>key\<close> what the container does to a name before it looks it up. The first call
  returns a reference to a live child of \<open>c\<close>, and the name is live afterwards. When
  the name was not live, the returned child is a new object, now registered under the
  name. When the name was live and its child bears the looked-up key as id, that child is
  returned and the live names and objects are as before. The second call returns the same
  reference and changes nothing, so the number of live names stays.
\<close>

definition same_child_twice ::
    "(addr \<Rightarrow> pyval \<Rightarrow> state \<Rightarrow> (pyerr + pyval) \<times> state)
       \<Rightarrow> (addr \<Rightarrow> string \<Rightarrow> state \<Rightarrow> addr option)
       \<Rightarrow> (addr \<Rightarrow> state \<Rightarrow> string list) \<Rightarrow> (addr \<Rightarrow> state \<Rightarrow> addr list)
       \<Rightarrow> (string \<Rightarrow> string) \<Rightarrow> addr \<Rightarrow> string \<Rightarrow> state \<Rightarrow> bool" where
  "same_child_twice op get ids objs key c n s =
     (case op c (PStr n) s of
        (Inr (PRef a), s1) \<Rightarrow>
          a \<in> set (objs c s1)
          \<and> get c n s1 \<noteq> None
          \<and> (case get c n s of
                None \<Rightarrow> get c n s1 = Some a \<and> \<not> a < length (heap s)
              | Some x \<Rightarrow>
                  attr_id s (PRef x) = Some (x, key n) \<longrightarrow>
                    a = x \<and> ids c s1 = ids c s \<and> objs c s1 = objs c s)
          \<and> op c (PStr n) s1 = (Inr (PRef a), s1)
          \<and> length (ids c (snd (op c (PStr n) s1))) = length (ids c s1)
      | _ \<Rightarrow> False)"

text \<open>
  Constructing a new child named \<open>m\<close> with parent \<open>p\<close> and passing it to the
  construct-or-fetch \<open>op\<close> of container \<open>c\<close>: the constructor and the call return,
  the call returns the child \<open>x\<close>, the live names and objects of \<open>c\<close> are what they
  were before the construction, and the new object is not among them.
\<close>

definition new_child_discarded ::
    "(string \<Rightarrow> addr \<Rightarrow> state \<Rightarrow> (pyerr + addr) \<times> state)
       \<Rightarrow> (addr \<Rightarrow> pyval \<Rightarrow> state \<Rightarrow> (pyerr + pyval) \<times> state)
       \<Rightarrow> (addr \<Rightarrow> state \<Rightarrow> string list) \<Rightarrow> (addr \<Rightarrow> state \<Rightarrow> addr list)
       \<Rightarrow> addr \<Rightarrow> addr \<Rightarrow> string \<Rightarrow> addr \<Rightarrow> state \<Rightarrow> bool" where
  "new_child_discarded init op ids objs c p m x s =
     (case init m p s of
        (Inr y, s0) \<Rightarrow>
          (case op c (PRef y) s0 of
             (Inr r, s1) \<Rightarrow>
               r = PRef x \<and> ids c s1 = ids c s \<and> objs c s1 = objs c s \<and> y \<notin> set (objs c s1)
           | _ \<Rightarrow> False)
      | _ \<Rightarrow> False)"

section \<open>Properties of removal, as predicates\<close>

text \<open>
  The key under which \<open>removeChild\<close> of Category, SaveFrame and CifFile looks the child
  up: its \<open>id\<close>, or the child itself when it is a string.
\<close>

definition child_key :: "state \<Rightarrow> pyval \<Rightarrow> string option" where
  "child_key s child =
     (case attr_id s child of
        Some (a, k) \<Rightarrow> Some k
      | None \<Rightarrow> (case child of PStr n \<Rightarrow> Some n | _ \<Rightarrow> None))"

text \<open>
  After a removal that returned true and led to state \<open>s1\<close>: the key \<open>k\<close> is no
  longer a live name, it is in the recycle bin, and the same removal again returns false
  without raising and without changing the state.
\<close>

definition moved_to_bin ::
    "(addr \<Rightarrow> pyval \<Rightarrow> state \<Rightarrow> (pyerr + bool) \<times> state) \<Rightarrow> (addr \<Rightarrow> state \<Rightarrow> string list)
       \<Rightarrow> (addr \<Rightarrow> state \<Rightarrow> dict) \<Rightarrow> addr \<Rightarrow> pyval \<Rightarrow> string \<Rightarrow> state \<Rightarrow> bool" where
  "moved_to_bin rm ids bin c child k s1 =
     (k \<notin> set (ids c s1) \<and> dict_has (bin c s1) k \<and> rm c child s1 = (Inr False, s1))"

text \<open>
  The key and the live enumeration that \<open>DataBlock.removeChild\<close> uses for a child: a
  Category object by its id among the categories, a SaveFrame object by its id among the
  save frames, a string stripped of leading underscores among the categories, or else as
  it is among the save frames.
\<close>

definition db_child_key :: "addr \<Rightarrow> pyval \<Rightarrow> state \<Rightarrow> (string \<times> (addr \<Rightarrow> state \<Rightarrow> string list)) option" where
  "db_child_key d child s =
     (case as_Category s child of
        Some k \<Rightarrow> Some (k, DataBlock_getCategoryIds)
      | None \<Rightarrow>
          (case as_SaveFrame s child of
             Some k \<Rightarrow> Some (k, DataBlock_getSaveFrameIds)
           | None \<Rightarrow>
               (case child of
                  PStr n \<Rightarrow>
                    if DataBlock_getCategory d n s \<noteq> None
                    then Some (lstrip_underscore n, DataBlock_getCategoryIds)
                    else Some (n, DataBlock_getSaveFrameIds)
                | _ \<Rightarrow> None)))"

text \<open>A name that is a live category (after stripping) and also a live save frame.\<close>

definition names_category_and_saveFrame :: "addr \<Rightarrow> pyval \<Rightarrow> state \<Rightarrow> bool" where
  "names_category_and_saveFrame d child s =
     (case child of
        PStr n \<Rightarrow> DataBlock_getCategory d n s \<noteq> None \<and> DataBlock_getSaveFrame d n s \<noteq> None
      | _ \<Rightarrow> False)"

text \<open>
  A data block with the category \<open>a\<close> and the save frame \<open>a\<close>: from the small tree,
  \<open>d.setCategory("a")\<close> is object 4 and \<open>d.setSaveFrame("a")\<close> is object 5.
\<close>

definition same_name_state :: state where
  "same_name_state =
     snd (DataBlock_setSaveFrame 1 (PStr ''a'')
       (snd (DataBlock_setCategory 1 (PStr ''a'') tree_state)))"

section \<open>Bulk import: input shape, tree invariant and outcome, as predicates\<close>










text \<open>
  Two relations between a state and a later one, used in the proofs about the import.
  \<open>same_kind\<close>: an Item is still an Item, a Category is still a Category with the same
  id, any other object is unchanged. \<open>heap_extends\<close>: every object of the earlier state
  is of the same kind in the later one, and nothing was printed.
\<close>

definition same_kind :: "obj \<Rightarrow> obj \<Rightarrow> bool" where
  "same_kind ob ob' =
     (case ob of
        OItem _ \<Rightarrow> (case ob' of OItem _ \<Rightarrow> True | _ \<Rightarrow> False)
      | OCategory cat \<Rightarrow> (case ob' of OCategory cat' \<Rightarrow> c_id cat' = c_id cat | _ \<Rightarrow> False)
      | _ \<Rightarrow> ob' = ob)"

definition heap_extends :: "state \<Rightarrow> state \<Rightarrow> bool" where
  "heap_extends s s' =
     (length (heap s) \<le> length (heap s')
      \<and> (\<forall>a < length (heap s). same_kind (heap s ! a) (heap s' ! a))
      \<and> out s' = out s)"


section \<open>Formatter: helper lemmas\<close>

lemma slice_wrapped: "slice_1_m1 (a # v @ [b]) = v"
  by (simp add: slice_1_m1_def butlast_append)

lemma quote_step_cases:
  "quote_step v =
     (if sq \<in> set v then dq # v @ [dq]
      else if dq \<in> set v then sq # v @ [sq]
      else if reserved_or_spaced v then dq # v @ [dq] else v)"
  by (simp add: quote_step_def)

lemma formatVal_hd:
  "formatVal v =
     (let val = quote_step v in
      if val = [] then Inl IndexError
      else if nl \<in> set val
      then Inr (semicolon_block (if hd val = sq \<or> hd val = dq then slice_1_m1 val else val))
      else if (hd val = sq \<or> hd val = dq) \<and> sq \<in> set (slice_1_m1 val)
                \<and> dq \<in> set (slice_1_m1 val)
      then Inr (semicolon_block (slice_1_m1 val))
      else Inr val)"
  by (cases "quote_step v") (simp_all add: formatVal_def Let_def)

lemma formatVal_wrapped:
  assumes "quote_step v = q # v @ [q]" and "q = sq \<or> q = dq"
  shows "formatVal v =
           (if nl \<in> set v \<or> (sq \<in> set v \<and> dq \<in> set v) then Inr (semicolon_block v)
            else Inr (q # v @ [q]))"
  using assms by (auto simp: formatVal_hd Let_def slice_wrapped)

lemma formatVal_bare:
  assumes "quote_step v = v" and "v \<noteq> []" and "hd v \<noteq> sq" and "hd v \<noteq> dq"
  shows "formatVal v = (if nl \<in> set v then Inr (semicolon_block v) else Inr v)"
  using assms by (simp add: formatVal_hd Let_def)

lemma formatVal_cases:
  assumes "v \<noteq> []"
  shows "formatVal v =
           (if nl \<in> set v \<or> (sq \<in> set v \<and> dq \<in> set v) then Inr (semicolon_block v)
            else if sq \<in> set v then Inr (dq # v @ [dq])
            else if dq \<in> set v then Inr (sq # v @ [sq])
            else if reserved_or_spaced v then Inr (dq # v @ [dq])
            else Inr v)"
proof -
  consider (s) "sq \<in> set v" | (d) "sq \<notin> set v" "dq \<in> set v"
    | (r) "sq \<notin> set v" "dq \<notin> set v" "reserved_or_spaced v"
    | (p) "sq \<notin> set v" "dq \<notin> set v" "\<not> reserved_or_spaced v"
    by blast
  then show ?thesis
  proof cases
    case s
    then have "quote_step v = dq # v @ [dq]" by (simp add: quote_step_cases)
    from formatVal_wrapped [OF this] s show ?thesis by simp
  next
    case d
    then have "quote_step v = sq # v @ [sq]" by (simp add: quote_step_cases)
    from formatVal_wrapped [OF this] d show ?thesis by simp
  next
    case r
    then have "quote_step v = dq # v @ [dq]" by (simp add: quote_step_cases)
    from formatVal_wrapped [OF this] r show ?thesis by simp
  next
    case p
    then have q: "quote_step v = v" by (simp add: quote_step_cases)
    from p assms have "hd v \<noteq> sq" "hd v \<noteq> dq" by (cases v; auto)+
    from formatVal_bare [OF q assms this] p show ?thesis by simp
  qed
qed

text \<open>The empty text reaches \<open>val[0]\<close> at line 688.\<close>

lemma formatVal_empty_text: "formatVal [] = Inl IndexError"
  by (simp add: formatVal_def quote_step_def reserved_or_spaced_def startswith_def)

lemma formatVal_linebreak_block:
  assumes "nl \<in> set v"
  shows "formatVal v = Inr (semicolon_block v)"
proof -
  from assms have "v \<noteq> []" by auto
  from formatVal_cases [OF this] assms show ?thesis by simp
qed

section \<open>Formatter: the claims\<close>

text \<open>
  C8 (amended). For every non-empty text without a line break: a text containing a single
  quote and no double quote is wrapped in double quotes; a text containing a double quote
  and no single quote is wrapped in single quotes; a text with no quote character is
  wrapped in double quotes exactly when it starts with \<open>_\<close> or \<open>[\<close> or contains a
  space, and is returned bare otherwise. The four examples of the claim hold:
  \<open>simple\<close> is returned bare, \<open>has space\<close> and \<open>it's\<close> are double-quoted,
  \<open>she said "hi"\<close> is single-quoted.
\<close>

theorem C8_formatVal_no_linebreak:
  assumes "nl \<notin> set v" and "v \<noteq> []"
  shows "(sq \<in> set v \<and> dq \<notin> set v \<longrightarrow> formatVal v = Inr ([dq] @ v @ [dq]))
       \<and> (dq \<in> set v \<and> sq \<notin> set v \<longrightarrow> formatVal v = Inr ([sq] @ v @ [sq]))
       \<and> (sq \<notin> set v \<and> dq \<notin> set v \<longrightarrow>
            formatVal v =
              Inr (if startswith v ''_'' \<or> startswith v ''['' \<or> CHR '' '' \<in> set v
                   then [dq] @ v @ [dq] else v))
       \<and> formatVal ''simple'' = Inr ''simple''
       \<and> formatVal ''has space'' = Inr ([dq] @ ''has space'' @ [dq])
       \<and> formatVal (''it'' @ [sq] @ ''s'') = Inr ([dq] @ ''it'' @ [sq] @ ''s'' @ [dq])
       \<and> formatVal (''she said '' @ [dq] @ ''hi'' @ [dq])
            = Inr ([sq] @ ''she said '' @ [dq] @ ''hi'' @ [dq] @ [sq])"
proof -
  note fc = formatVal_cases [OF assms(2)]
  have a: "sq \<in> set v \<and> dq \<notin> set v \<longrightarrow> formatVal v = Inr ([dq] @ v @ [dq])"
    using assms(1) fc by simp
  have b: "dq \<in> set v \<and> sq \<notin> set v \<longrightarrow> formatVal v = Inr ([sq] @ v @ [sq])"
    using assms(1) fc by simp
  have c: "sq \<notin> set v \<and> dq \<notin> set v \<longrightarrow>
            formatVal v =
              Inr (if startswith v ''_'' \<or> startswith v ''['' \<or> CHR '' '' \<in> set v
                   then [dq] @ v @ [dq] else v)"
    using assms(1) fc by (simp add: reserved_or_spaced_def)
  have e1: "formatVal ''simple'' = Inr ''simple''"
    by (simp add: formatVal_def quote_step_def reserved_or_spaced_def startswith_def)
  have e2: "formatVal ''has space'' = Inr ([dq] @ ''has space'' @ [dq])"
    by (simp add: formatVal_def quote_step_def reserved_or_spaced_def startswith_def
        slice_1_m1_def)
  have e3: "formatVal (''it'' @ [sq] @ ''s'') = Inr ([dq] @ ''it'' @ [sq] @ ''s'' @ [dq])"
    by (simp add: formatVal_def quote_step_def reserved_or_spaced_def startswith_def
        slice_1_m1_def)
  have e4: "formatVal (''she said '' @ [dq] @ ''hi'' @ [dq])
            = Inr ([sq] @ ''she said '' @ [dq] @ ''hi'' @ [dq] @ [sq])"
    by (simp add: formatVal_def quote_step_def reserved_or_spaced_def startswith_def
        slice_1_m1_def)
  from a b c e1 e2 e3 e4 show ?thesis by blast
qed

theorem C8_formatVal_no_linebreak_witness:
  "nl \<notin> set (''it'' @ [sq] @ ''s'') \<and> ''it'' @ [sq] @ ''s'' \<noteq> []
   \<and> sq \<in> set (''it'' @ [sq] @ ''s'') \<and> dq \<notin> set (''it'' @ [sq] @ ''s'')
   \<and> formatVal (''it'' @ [sq] @ ''s'') = Inr ([dq] @ ''it'' @ [sq] @ ''s'' @ [dq])"
  using C8_formatVal_no_linebreak [of "''it'' @ [sq] @ ''s''"] by simp

text \<open>
  C8 as stated fails: a text without a line break that contains a single quote and also
  a double quote is not wrapped in double quotes; it is returned as a semicolon block.
\<close>

theorem C8_mixed_quotes_counterexample:
  "nl \<notin> set (''a'' @ [sq] @ ''b'' @ [dq] @ ''c'')
   \<and> sq \<in> set (''a'' @ [sq] @ ''b'' @ [dq] @ ''c'')
   \<and> formatVal (''a'' @ [sq] @ ''b'' @ [dq] @ ''c'')
       \<noteq> Inr ([dq] @ (''a'' @ [sq] @ ''b'' @ [dq] @ ''c'') @ [dq])
   \<and> formatVal (''a'' @ [sq] @ ''b'' @ [dq] @ ''c'')
       = Inr (semicolon_block (''a'' @ [sq] @ ''b'' @ [dq] @ ''c''))"
  by (simp add: formatVal_def quote_step_def reserved_or_spaced_def startswith_def
      slice_1_m1_def semicolon_block_def)

text \<open>
  C9 (amended). For every text containing a line break the formatter returns the
  semicolon block around the text exactly as it arrived: a line break, \<open>;\<close>, the text
  with every quote character it contains, a line break, \<open>;\<close>, a line break. In
  particular the text \<open>a\<close>, line break, \<open>b\<close> gives the block around that text.
\<close>

theorem C9_formatVal_linebreak:
  "(nl \<in> set v \<longrightarrow> formatVal v = Inr ([nl, CHR '';''] @ v @ [nl, CHR '';'', nl]))
   \<and> formatVal (''a'' @ [nl] @ ''b'') = Inr ([nl] @ '';a'' @ [nl] @ ''b'' @ [nl] @ '';'' @ [nl])"
proof -
  have g: "nl \<in> set v \<longrightarrow> formatVal v = Inr ([nl, CHR '';''] @ v @ [nl, CHR '';'', nl])"
    using formatVal_linebreak_block [of v] by (simp add: semicolon_block_def)
  have e: "formatVal (''a'' @ [nl] @ ''b'')
           = Inr ([nl] @ '';a'' @ [nl] @ ''b'' @ [nl] @ '';'' @ [nl])"
    using formatVal_linebreak_block [of "''a'' @ [nl] @ ''b''"]
    by (simp add: semicolon_block_def)
  from g e show ?thesis by blast
qed

theorem C9_formatVal_linebreak_witness:
  "nl \<in> set (''x'' @ [nl] @ ''y'')
   \<and> formatVal (''x'' @ [nl] @ ''y'') = Inr ([nl, CHR '';''] @ (''x'' @ [nl] @ ''y'') @ [nl, CHR '';'', nl])"
  using C9_formatVal_linebreak [of "''x'' @ [nl] @ ''y''"] by simp

text \<open>
  C9 as stated fails: a text with a line break that arrives wrapped in single quotes
  keeps its quotes inside the block.
\<close>

theorem C9_quotes_kept_counterexample:
  "nl \<in> set ([sq] @ ''a'' @ [nl] @ ''b'' @ [sq])
   \<and> spec_strip_wrapping_quotes ([sq] @ ''a'' @ [nl] @ ''b'' @ [sq]) = ''a'' @ [nl] @ ''b''
   \<and> formatVal ([sq] @ ''a'' @ [nl] @ ''b'' @ [sq])
       \<noteq> Inr (semicolon_block (spec_strip_wrapping_quotes ([sq] @ ''a'' @ [nl] @ ''b'' @ [sq])))
   \<and> formatVal ([sq] @ ''a'' @ [nl] @ ''b'' @ [sq])
       = Inr (semicolon_block ([sq] @ ''a'' @ [nl] @ ''b'' @ [sq]))"
  by (simp add: formatVal_def quote_step_def reserved_or_spaced_def startswith_def
      slice_1_m1_def semicolon_block_def spec_strip_wrapping_quotes_def)

section \<open>The store: helper lemmas\<close>

lemma lookup_Some_less: "lookup s a = Some ob \<Longrightarrow> a < length (heap s)"
  by (simp add: lookup_def split: if_splits)

lemma store_store: "store a x (store a y s) = store a x s"
  by (simp add: store_def)

lemma store_same: "lookup s a = Some ob \<Longrightarrow> store a ob s = s"
  by (cases s) (auto simp: lookup_def store_def split: if_splits)

lemma length_heap_store: "length (heap (store a ob s)) = length (heap s)"
  by (simp add: store_def)

lemma lookup_store_same: "lookup s a = Some ob0 \<Longrightarrow> lookup (store a ob s) a = Some ob"
  by (simp add: lookup_def store_def split: if_splits)

lemma lookup_store_other: "b \<noteq> a \<Longrightarrow> lookup (store a ob s) b = lookup s b"
  by (simp add: lookup_def store_def)

lemma tree_state_value:
  "tree_state =
     \<lparr>heap =
        [OCifFile \<lparr>f_data_blocks = [(''D'', 1)], f_recycleBin = [], f_file_path = None\<rparr>,
         ODataBlock \<lparr>db_id = ''D'', db_categories = [(''c'', 2)], db_saveFrames = [],
                     db_recycleBin = [], db_parent = 0\<rparr>,
         OCategory \<lparr>c_items = [(''a'', 3)], c_recycleBin = [], c_isTable = False,
                    c_id = ''c'', c_maxTagLength = 3, c_parent = 1\<rparr>,
         OItem \<lparr>i_value = PNone, i_type = PStrClass, i_mandatory = False,
                i_isColumn = False, i_id = ''a'', i_name = ''a'',
                i_lineno = PInt (- 1), i_parent = 2\<rparr>],
      out = []\<rparr>"
  by code_simp

section \<open>Item.setValue: the three states\<close>

lemma setValue_first_scalar:
  assumes "lookup s a = Some (OItem it)" and "i_value it = PNone" and "\<not> i_isColumn it"
    and "\<not> is_list v"
  shows "Item_setValue a v t l s =
           (Inr (), store a (OItem (it\<lparr>i_value := v, i_type := t, i_lineno := l\<rparr>)) s)"
  using assms by (cases v) (simp_all add: Item_setValue_def is_list_def)

lemma setValue_promote:
  assumes "lookup s a = Some (OItem it)" and "i_value it \<noteq> PNone" and "\<not> i_isColumn it"
  shows "Item_setValue a v t l s =
           (Inr (), set_parent_isTable (i_parent it)
                      (store a (OItem (it\<lparr>i_value := PList [i_value it, v],
                                           i_type := PList [i_type it, t],
                                           i_lineno := PList [i_lineno it, l],
                                           i_isColumn := True\<rparr>)) s))"
  using assms by (simp add: Item_setValue_def)

lemma set_parent_isTable_category:
  assumes "lookup s p = Some (OCategory cat)"
  shows "set_parent_isTable p s = store p (OCategory (cat\<lparr>c_isTable := True\<rparr>)) s"
  using assms by (simp add: set_parent_isTable_def)

lemma setValue_append:
  assumes "lookup s a = Some (OItem it)" and "i_isColumn it"
    and "i_value it = PList vs" and "i_type it = PList ts" and "i_lineno it = PList ls"
  shows "Item_setValue a v t l s =
           (Inr (), store a (OItem (it\<lparr>i_value := PList (vs @ [v]), i_type := PList (ts @ [t]),
                                       i_lineno := PList (ls @ [l])\<rparr>)) s)"
  using assms by (simp add: Item_setValue_def Let_def store_store)

text \<open>Once the three fields are lists, any run of calls appends to all three.\<close>

lemma setValues_append:
  assumes "lookup s a = Some (OItem it)" and "i_isColumn it"
    and "i_value it = PList vs" and "i_type it = PList ts" and "i_lineno it = PList ls"
  shows "setValues a calls s =
           (Inr (), store a (OItem (it\<lparr>i_value := PList (vs @ map fst calls),
                                       i_type := PList (ts @ map (\<lambda>c. fst (snd c)) calls),
                                       i_lineno := PList (ls @ map (\<lambda>c. snd (snd c)) calls)\<rparr>)) s)"
  using assms
proof (induction calls arbitrary: s it vs ts ls)
  case Nil
  have "it\<lparr>i_value := PList vs, i_type := PList ts, i_lineno := PList ls\<rparr> = it"
    using Nil(3-5) by (cases it) simp
  then show ?case using Nil(1) by (simp add: store_same)
next
  case (Cons c calls)
  obtain v t l where c: "c = (v, t, l)" by (cases c) auto
  let ?it1 = "it\<lparr>i_value := PList (vs @ [v]), i_type := PList (ts @ [t]),
                  i_lineno := PList (ls @ [l])\<rparr>"
  let ?s1 = "store a (OItem ?it1) s"
  have step: "Item_setValue a v t l s = (Inr (), ?s1)"
    by (rule setValue_append [OF Cons.prems])
  have l1: "lookup ?s1 a = Some (OItem ?it1)"
    using Cons.prems(1) by (rule lookup_store_same)
  have "setValues a calls ?s1 =
          (Inr (), store a (OItem (?it1\<lparr>i_value := PList ((vs @ [v]) @ map fst calls),
                                       i_type := PList ((ts @ [t]) @ map (\<lambda>c. fst (snd c)) calls),
                                       i_lineno := PList ((ls @ [l]) @ map (\<lambda>c. snd (snd c)) calls)\<rparr>)) ?s1)"
    by (rule Cons.IH [OF l1]) (simp_all add: Cons.prems)
  then show ?case using step c by (simp add: store_store)
qed

text \<open>
  A run of two or more calls on an empty Item that starts with a non-list value other than
  \<open>None\<close>: no call raises, the Item ends with \<open>isColumn\<close> true, \<open>getRawValue()\<close> is
  the list of all passed values in call order (\<open>type\<close> and \<open>lineno\<close> are the parallel
  lists), and the owning Category has \<open>isTable\<close> true.
\<close>

lemma scalar_setValue_calls:
  assumes item: "lookup s a = Some (OItem it)"
    and empty: "i_value it = PNone" "\<not> i_isColumn it"
    and parent: "lookup s (i_parent it) = Some (OCategory cat)"
    and len: "2 \<le> length calls"
    and scalar: "\<forall>c \<in> set calls. \<not> is_list (fst c)"
    and first: "fst (hd calls) \<noteq> PNone"
  shows "\<exists>s'. setValues a calls s = (Inr (), s')
            \<and> Item_isColumn a s' = Some True
            \<and> Item_getRawValue a s' = Some (PList (map fst calls))
            \<and> Item_type a s' = Some (PList (map (\<lambda>c. fst (snd c)) calls))
            \<and> Item_lineno a s' = Some (PList (map (\<lambda>c. snd (snd c)) calls))
            \<and> Category_isTable (i_parent it) s' = Some True"
proof -
  from len obtain c1 c2 rest where calls: "calls = c1 # c2 # rest"
    by (cases calls; cases "tl calls") auto
  obtain v1 t1 l1 where c1: "c1 = (v1, t1, l1)" by (cases c1) auto
  obtain v2 t2 l2 where c2: "c2 = (v2, t2, l2)" by (cases c2) auto
  let ?p = "i_parent it"
  from item parent have ap: "a \<noteq> ?p" by auto
  from scalar first calls c1 have v1: "\<not> is_list v1" "v1 \<noteq> PNone" by auto
  let ?it1 = "it\<lparr>i_value := v1, i_type := t1, i_lineno := l1\<rparr>"
  let ?s1 = "store a (OItem ?it1) s"
  have step1: "Item_setValue a v1 t1 l1 s = (Inr (), ?s1)"
    by (rule setValue_first_scalar [OF item empty v1(1)])
  have look1: "lookup ?s1 a = Some (OItem ?it1)"
    using item by (rule lookup_store_same)
  let ?it2 = "?it1\<lparr>i_value := PList [v1, v2], i_type := PList [t1, t2],
                     i_lineno := PList [l1, l2], i_isColumn := True\<rparr>"
  let ?s2a = "store a (OItem ?it2) ?s1"
  let ?s2 = "store ?p (OCategory (cat\<lparr>c_isTable := True\<rparr>)) ?s2a"
  have par2a: "lookup ?s2a ?p = Some (OCategory cat)"
    using parent ap by (simp add: lookup_store_other)
  have step2: "Item_setValue a v2 t2 l2 ?s1 = (Inr (), ?s2)"
    using setValue_promote [OF look1, of v2 t2 l2] v1(2) empty(2)
      set_parent_isTable_category [OF par2a]
    by simp
  have look2: "lookup ?s2 a = Some (OItem ?it2)"
    using ap lookup_store_same [OF look1, of "OItem ?it2"] by (simp add: lookup_store_other)
  let ?it3 = "?it2\<lparr>i_value := PList ([v1, v2] @ map fst rest),
                     i_type := PList ([t1, t2] @ map (\<lambda>c. fst (snd c)) rest),
                     i_lineno := PList ([l1, l2] @ map (\<lambda>c. snd (snd c)) rest)\<rparr>"
  let ?s3 = "store a (OItem ?it3) ?s2"
  have step3: "setValues a rest ?s2 = (Inr (), ?s3)"
    by (rule setValues_append [OF look2]) simp_all
  have run: "setValues a calls s = (Inr (), ?s3)"
    using step1 step2 step3 by (simp add: calls c1 c2)
  have look3: "lookup ?s3 a = Some (OItem ?it3)"
    using look2 by (rule lookup_store_same)
  have par2: "lookup ?s2 ?p = Some (OCategory (cat\<lparr>c_isTable := True\<rparr>))"
    using par2a by (rule lookup_store_same)
  have par3: "lookup ?s3 ?p = Some (OCategory (cat\<lparr>c_isTable := True\<rparr>))"
    using par2 ap by (simp add: lookup_store_other)
  from run look3 par3 show ?thesis
    by (intro exI [of _ ?s3])
       (simp add: calls c1 c2 Item_isColumn_def Item_getRawValue_def attr_value_def
          Item_type_def Item_lineno_def Category_isTable_def)
qed

lemma scalar_setValue_calls_example:
  "\<exists>s'. setValues 3 [(PInt 4, PStr ''int'', PInt 10), (PStr ''x'', PStr ''char'', PInt 11),
                     (PNone, PStr ''char'', PInt 12)] tree_state = (Inr (), s')
      \<and> Item_isColumn 3 s' = Some True
      \<and> Item_getRawValue 3 s' = Some (PList [PInt 4, PStr ''x'', PNone])
      \<and> Item_type 3 s' = Some (PList [PStr ''int'', PStr ''char'', PStr ''char''])
      \<and> Item_lineno 3 s' = Some (PList [PInt 10, PInt 11, PInt 12])
      \<and> Category_isTable 2 s' = Some True"
  using scalar_setValue_calls
    [of tree_state 3
        "\<lparr>i_value = PNone, i_type = PStrClass, i_mandatory = False, i_isColumn = False,
          i_id = ''a'', i_name = ''a'', i_lineno = PInt (- 1), i_parent = 2\<rparr>"
        "\<lparr>c_items = [(''a'', 3)], c_recycleBin = [], c_isTable = False, c_id = ''c'',
          c_maxTagLength = 3, c_parent = 1\<rparr>"
        "[(PInt 4, PStr ''int'', PInt 10), (PStr ''x'', PStr ''char'', PInt 11),
          (PNone, PStr ''char'', PInt 12)]"]
  by (simp add: tree_state_value lookup_def is_list_def)

text \<open>
  C1 (the code at the failing input). \<open>None\<close> is a non-list value, and the value an Item
  holds for a null entry. On the new Item of the small tree, the two calls
  \<open>setValue(None)\<close>, \<open>setValue(5)\<close> return normally and end with the scalar 5,
  \<open>isColumn\<close> false and \<open>isTable\<close> false: the first call leaves the Item empty,
  because the Item is recognised as empty by \<open>self.value is None\<close>. The three calls
  \<open>None\<close>, 5, 6 end with the column \<open>[5, 6]\<close>: the leading value is lost. Passed
  second, \<open>None\<close> is kept: the calls 5, \<open>None\<close> end with the column \<open>[5, None]\<close>.
\<close>

theorem C1_leading_None_dropped:
  "\<not> is_list PNone \<and> \<not> is_list (PInt 5)
   \<and> fst (setValues 3 [(PNone, PStr ''DEFAULTSTRING'', PInt (- 1)),
        (PInt 5, PStr ''DEFAULTSTRING'', PInt (- 1))] tree_state) = Inr ()
   \<and> Item_isColumn 3 (snd (setValues 3 [(PNone, PStr ''DEFAULTSTRING'', PInt (- 1)),
        (PInt 5, PStr ''DEFAULTSTRING'', PInt (- 1))] tree_state)) = Some False
   \<and> Item_getRawValue 3 (snd (setValues 3 [(PNone, PStr ''DEFAULTSTRING'', PInt (- 1)),
        (PInt 5, PStr ''DEFAULTSTRING'', PInt (- 1))] tree_state)) = Some (PInt 5)
   \<and> Category_isTable 2 (snd (setValues 3 [(PNone, PStr ''DEFAULTSTRING'', PInt (- 1)),
        (PInt 5, PStr ''DEFAULTSTRING'', PInt (- 1))] tree_state)) = Some False
   \<and> Item_getRawValue 3 (snd (setValues 3 [(PNone, PStr ''DEFAULTSTRING'', PInt (- 1)),
        (PInt 5, PStr ''DEFAULTSTRING'', PInt (- 1)),
        (PInt 6, PStr ''DEFAULTSTRING'', PInt (- 1))] tree_state)) = Some (PList [PInt 5, PInt 6])
   \<and> Item_getRawValue 3 (snd (setValues 3 [(PInt 5, PStr ''DEFAULTSTRING'', PInt (- 1)),
        (PNone, PStr ''DEFAULTSTRING'', PInt (- 1))] tree_state)) = Some (PList [PInt 5, PNone])"
  by code_simp

text \<open>
  C2 (the code at the failing input). A first call \<open>setValue([1, 2])\<close> on the new Item
  of the small tree returns normally and sets \<open>isColumn\<close>, but \<open>type\<close> is still the
  class \<open>str\<close> and \<open>lineno\<close> is still -1: neither is a list. The next call
  \<open>setValue(3)\<close> raises AttributeError, after appending 3 to \<open>value\<close>.
\<close>

theorem C2_list_first_call_breaks_columns:
  "fst (Item_setValue 3 (PList [PInt 1, PInt 2]) (PStr ''DEFAULTSTRING'') (PInt (- 1)) tree_state)
     = Inr ()
   \<and> Item_isColumn 3 (snd (Item_setValue 3 (PList [PInt 1, PInt 2]) (PStr ''DEFAULTSTRING'')
                             (PInt (- 1)) tree_state)) = Some True
   \<and> Item_getRawValue 3 (snd (Item_setValue 3 (PList [PInt 1, PInt 2]) (PStr ''DEFAULTSTRING'')
                             (PInt (- 1)) tree_state)) = Some (PList [PInt 1, PInt 2])
   \<and> Item_type 3 (snd (Item_setValue 3 (PList [PInt 1, PInt 2]) (PStr ''DEFAULTSTRING'')
                             (PInt (- 1)) tree_state)) = Some PStrClass
   \<and> Item_lineno 3 (snd (Item_setValue 3 (PList [PInt 1, PInt 2]) (PStr ''DEFAULTSTRING'')
                             (PInt (- 1)) tree_state)) = Some (PInt (- 1))
   \<and> fst (setValues 3 [(PList [PInt 1, PInt 2], PStr ''DEFAULTSTRING'', PInt (- 1)),
                        (PInt 3, PStr ''DEFAULTSTRING'', PInt (- 1))] tree_state)
       = Inl AttributeError
   \<and> Item_getRawValue 3 (snd (setValues 3 [(PList [PInt 1, PInt 2], PStr ''DEFAULTSTRING'', PInt (- 1)),
                        (PInt 3, PStr ''DEFAULTSTRING'', PInt (- 1))] tree_state))
       = Some (PList [PInt 1, PInt 2, PInt 3])"
  by code_simp

section \<open>Construct-or-fetch: helper lemmas\<close>

lemma lookup_store:
  "lookup (store a ob s) b =
     (if b < length (heap s) then (if b = a then Some ob else lookup s b) else None)"
  by (simp add: lookup_def store_def)

lemma length_heap_alloc: "length (heap (snd (alloc ob s))) = Suc (length (heap s))"
  by (simp add: alloc_def)

lemma lookup_alloc:
  "lookup (snd (alloc ob s)) a =
     (if a < length (heap s) then lookup s a else if a = length (heap s) then Some ob else None)"
  by (simp add: lookup_def alloc_def nth_append)

lemma fst_alloc: "fst (alloc ob s) = length (heap s)"
  by (simp add: alloc_def)

lemma lstrip_underscore_idem [simp]:
  "lstrip_underscore (lstrip_underscore n) = lstrip_underscore n"
  by (simp add: lstrip_underscore_def)

lemma dsd_present: "map_of d k = Some x \<Longrightarrow> dict_setdefault k v d = (x, d)"
  by (simp add: dict_setdefault_def)

lemma map_of_dict_set: "map_of (dict_set k v d) k' = (if k' = k then Some v else map_of d k')"
  by (simp add: dict_set_def update_conv)

lemma dsd_idem: "dict_setdefault k v d = (r, d') \<Longrightarrow> dict_setdefault k v d' = (r, d')"
  by (auto simp: dict_setdefault_def map_of_dict_set split: option.splits)

lemma dsd_preserve:
  "dict_setdefault k v d = (r, d') \<Longrightarrow> map_of d k' = Some x \<Longrightarrow> map_of d' k' = Some x"
  by (auto simp: dict_setdefault_def map_of_dict_set split: option.splits)

lemma attr_id_store:
  assumes "lookup s c = Some ob" and "obj_id ob' = obj_id ob"
  shows "attr_id (store c ob' s) x = attr_id s x"
proof (cases x)
  case (PRef a)
  show ?thesis
  proof (cases "a = c")
    case True
    with assms PRef show ?thesis
      by (simp add: attr_id_def lookup_store_same [OF assms(1)])
  next
    case False
    with PRef show ?thesis by (simp add: attr_id_def lookup_store_other)
  qed
qed (simp_all add: attr_id_def)

lemma children_have_id:
  assumes "children_are P s d" and "\<And>a. P s a \<Longrightarrow> attr_id s (PRef a) \<noteq> None"
    and "map_of d k = Some a"
  shows "attr_id s (PRef a) \<noteq> None"
proof -
  from assms(3) have "(k, a) \<in> set d" by (rule map_of_SomeD)
  with assms(1) have "P s a" by (auto simp: children_are_def list_all_iff)
  then show ?thesis by (rule assms(2))
qed

lemma is_Item_has_id: "is_Item s a \<Longrightarrow> attr_id s (PRef a) \<noteq> None"
  by (auto simp: is_Item_def attr_id_def obj_id_def split: option.splits obj.splits)

lemma is_Category_has_id: "is_Category s a \<Longrightarrow> attr_id s (PRef a) \<noteq> None"
  by (auto simp: is_Category_def attr_id_def obj_id_def split: option.splits obj.splits)

lemma is_SaveFrame_has_id: "is_SaveFrame s a \<Longrightarrow> attr_id s (PRef a) \<noteq> None"
  by (auto simp: is_SaveFrame_def attr_id_def obj_id_def split: option.splits obj.splits)

lemma is_DataBlock_has_id: "is_DataBlock s a \<Longrightarrow> attr_id s (PRef a) \<noteq> None"
  by (auto simp: is_DataBlock_def attr_id_def obj_id_def split: option.splits obj.splits)

subsection \<open>CifFile.setDataBlock\<close>

lemma file_register_returns:
  assumes "lookup s c = Some (OCifFile r0)" and "attr_id s x = Some (a, k)"
  shows "\<exists>r s1. CifFile_setDataBlock_register c x s = (Inr (PRef r), s1)"
  using assms by (simp add: CifFile_setDataBlock_register_def split_beta)

lemma file_register_idem:
  assumes "CifFile_setDataBlock_register c x s = (Inr r, s1)"
  shows "CifFile_setDataBlock_register c x s1 = (Inr r, s1)"
proof -
  from assms obtain r0 where r0: "lookup s c = Some (OCifFile r0)"
    by (auto simp: CifFile_setDataBlock_register_def split: option.splits obj.splits)
  from assms r0 obtain a k where ai: "attr_id s x = Some (a, k)"
    by (auto simp: CifFile_setDataBlock_register_def split: option.splits)
  obtain r' d where dsd: "dict_setdefault k a (f_data_blocks r0) = (r', d)"
    by (cases "dict_setdefault k a (f_data_blocks r0)") auto
  from assms r0 ai dsd have r: "r = PRef r'"
    and s1: "s1 = store c (OCifFile (r0\<lparr>f_data_blocks := d\<rparr>)) s"
    by (auto simp: CifFile_setDataBlock_register_def)
  have l1: "lookup s1 c = Some (OCifFile (r0\<lparr>f_data_blocks := d\<rparr>))"
    unfolding s1 using r0 by (rule lookup_store_same)
  have a1: "attr_id s1 x = Some (a, k)"
    unfolding s1 using attr_id_store [OF r0, of "OCifFile (r0\<lparr>f_data_blocks := d\<rparr>)" x] ai
    by (simp add: obj_id_def)
  have "store c (OCifFile (r0\<lparr>f_data_blocks := d\<rparr>)) s1 = s1"
    using l1 by (rule store_same)
  then show ?thesis
    using l1 a1 dsd_idem [OF dsd] r by (simp add: CifFile_setDataBlock_register_def)
qed

lemma file_register_preserve:
  assumes "CifFile_setDataBlock_register c x s = (Inr r, s1)"
    and "lookup s c = Some (OCifFile r0)" and "map_of (f_data_blocks r0) k' = Some b"
  shows "\<exists>r1. lookup s1 c = Some (OCifFile r1) \<and> map_of (f_data_blocks r1) k' = Some b"
proof -
  from assms obtain a k where ai: "attr_id s x = Some (a, k)"
    by (auto simp: CifFile_setDataBlock_register_def split: option.splits)
  obtain r' d where dsd: "dict_setdefault k a (f_data_blocks r0) = (r', d)"
    by (cases "dict_setdefault k a (f_data_blocks r0)") auto
  from assms ai dsd have s1: "s1 = store c (OCifFile (r0\<lparr>f_data_blocks := d\<rparr>)) s"
    by (auto simp: CifFile_setDataBlock_register_def)
  have l1: "lookup s1 c = Some (OCifFile (r0\<lparr>f_data_blocks := d\<rparr>))"
    unfolding s1 using assms(2) by (rule lookup_store_same)
  with dsd_preserve [OF dsd assms(3)] show ?thesis by simp
qed

lemma file_init:
  assumes "lookup s c = Some (OCifFile r0)"
  shows "DataBlock_init m c s =
           (Inr (length (heap s)),
            store c (OCifFile (r0\<lparr>f_data_blocks := dict_set (m) (length (heap s)) (f_data_blocks r0)\<rparr>))
              (snd (alloc (ODataBlock \<lparr>db_id = m, db_categories = [], db_saveFrames = [], db_recycleBin = [], db_parent = c\<rparr>) s)))"
  using assms lookup_Some_less [OF assms]
  by (simp add: DataBlock_init_def Let_def split_beta fst_alloc lookup_alloc)

lemma file_first_call:
  assumes r0: "lookup s c = Some (OCifFile r0)"
  shows "\<exists>a s0 r1. CifFile_setDataBlock c (PStr n) s = CifFile_setDataBlock_register c (PRef a) s0
            \<and> lookup s0 c = Some (OCifFile r1) \<and> map_of (f_data_blocks r1) (n) = Some a
            \<and> (map_of (f_data_blocks r0) (n) = None \<longrightarrow> attr_id s0 (PRef a) = Some (a, n))
            \<and> (map_of (f_data_blocks r0) (n) \<noteq> None \<longrightarrow> s0 = s)"
proof (cases "map_of (f_data_blocks r0) (n)")
  case None
  let ?m = "n"
  let ?new = "length (heap s)"
  let ?r1 = "r0\<lparr>f_data_blocks := dict_set ?m ?new (f_data_blocks r0)\<rparr>"
  have ini: "DataBlock_init ?m c s =
               (Inr ?new, store c (OCifFile ?r1) (snd (alloc (ODataBlock \<lparr>db_id = ?m, db_categories = [], db_saveFrames = [], db_recycleBin = [], db_parent = c\<rparr>) s)))"
    using file_init [OF r0, of ?m] by simp
  let ?s0 = "store c (OCifFile ?r1) (snd (alloc (ODataBlock \<lparr>db_id = ?m, db_categories = [], db_saveFrames = [], db_recycleBin = [], db_parent = c\<rparr>) s))"
  from lookup_Some_less [OF r0] have cl: "c < length (heap s)" .
  have "CifFile_setDataBlock c (PStr n) s = CifFile_setDataBlock_register c (PRef ?new) ?s0"
    using r0 None ini by (simp add: CifFile_setDataBlock_def)
  moreover have "lookup ?s0 c = Some (OCifFile ?r1)"
    using cl by (simp add: lookup_store length_heap_alloc)
  moreover have "map_of (f_data_blocks ?r1) ?m = Some ?new" by (simp add: map_of_dict_set)
  moreover have "attr_id ?s0 (PRef ?new) = Some (?new, ?m)"
    using cl by (simp add: attr_id_def lookup_store length_heap_alloc lookup_alloc obj_id_def)
  ultimately show ?thesis using None
    by (intro exI [of _ ?new] exI [of _ ?s0] exI [of _ ?r1]) simp
next
  case (Some a)
  with r0 have "CifFile_setDataBlock c (PStr n) s = CifFile_setDataBlock_register c (PRef a) s"
    by (simp add: CifFile_setDataBlock_def)
  with r0 Some show ?thesis
    by (intro exI [of _ a] exI [of _ s] exI [of _ r0]) simp
qed

lemma file_idem:
  assumes "CifFile_setDataBlock c (PStr n) s = (Inr r, s1)"
  shows "CifFile_setDataBlock c (PStr n) s1 = (Inr r, s1)"
proof -
  from assms obtain r0 where r0: "lookup s c = Some (OCifFile r0)"
    by (auto simp: CifFile_setDataBlock_def split: option.splits obj.splits)
  from file_first_call [OF r0, of n] assms obtain a s0 r1
    where reg: "CifFile_setDataBlock_register c (PRef a) s0 = (Inr r, s1)"
      and l0: "lookup s0 c = Some (OCifFile r1)" and m0: "map_of (f_data_blocks r1) (n) = Some a"
    by auto
  from file_register_preserve [OF reg l0 m0] obtain r2
    where l1: "lookup s1 c = Some (OCifFile r2)" and m1: "map_of (f_data_blocks r2) (n) = Some a"
    by blast
  from file_register_idem [OF reg] l1 m1 show ?thesis
    by (simp add: CifFile_setDataBlock_def)
qed

lemma file_returns:
  assumes r0: "lookup s c = Some (OCifFile r0)"
    and ok: "\<And>a. map_of (f_data_blocks r0) (n) = Some a \<Longrightarrow> attr_id s (PRef a) \<noteq> None"
  shows "\<exists>r s1. CifFile_setDataBlock c (PStr n) s = (Inr (PRef r), s1)"
proof -
  from file_first_call [OF r0, of n] obtain a s0 r1
    where op: "CifFile_setDataBlock c (PStr n) s = CifFile_setDataBlock_register c (PRef a) s0"
      and l0: "lookup s0 c = Some (OCifFile r1)" and m0: "map_of (f_data_blocks r1) (n) = Some a"
      and fresh: "map_of (f_data_blocks r0) (n) = None \<longrightarrow> attr_id s0 (PRef a) = Some (a, n)"
      and old: "map_of (f_data_blocks r0) (n) \<noteq> None \<longrightarrow> s0 = s"
    by auto
  have "\<exists>a' k. attr_id s0 (PRef a) = Some (a', k)"
  proof (cases "map_of (f_data_blocks r0) (n)")
    case None
    with fresh show ?thesis by blast
  next
    case (Some b)
    with old have s0: "s0 = s" by simp
    with l0 r0 have "r1 = r0" by simp
    with m0 Some have "b = a" by simp
    with ok [OF Some] s0 show ?thesis by auto
  qed
  then obtain a' k where "attr_id s0 (PRef a) = Some (a', k)" by blast
  from file_register_returns [OF l0 this] op show ?thesis by simp
qed

lemma file_twice:
  assumes r0: "lookup s c = Some (OCifFile r0)" and ok: "children_are is_DataBlock s (f_data_blocks r0)"
  shows "\<exists>a s1. CifFile_setDataBlock c (PStr n) s = (Inr (PRef a), s1)
              \<and> CifFile_setDataBlock c (PStr n) s1 = (Inr (PRef a), s1)"
proof -
  have "\<And>a. map_of (f_data_blocks r0) (n) = Some a \<Longrightarrow> attr_id s (PRef a) \<noteq> None"
    using ok by (rule children_have_id) (simp_all add: is_DataBlock_has_id)
  from file_returns [OF r0 this] obtain a s1
    where "CifFile_setDataBlock c (PStr n) s = (Inr (PRef a), s1)" by blast
  with file_idem [OF this] show ?thesis by blast
qed

subsection \<open>DataBlock.setSaveFrame\<close>

lemma dbsf_register_returns:
  assumes "lookup s c = Some (ODataBlock r0)" and "attr_id s x = Some (a, k)"
  shows "\<exists>r s1. db_setSaveFrame_register c x s = (Inr (PRef r), s1)"
  using assms by (simp add: db_setSaveFrame_register_def split_beta)

lemma dbsf_register_idem:
  assumes "db_setSaveFrame_register c x s = (Inr r, s1)"
  shows "db_setSaveFrame_register c x s1 = (Inr r, s1)"
proof -
  from assms obtain r0 where r0: "lookup s c = Some (ODataBlock r0)"
    by (auto simp: db_setSaveFrame_register_def split: option.splits obj.splits)
  from assms r0 obtain a k where ai: "attr_id s x = Some (a, k)"
    by (auto simp: db_setSaveFrame_register_def split: option.splits)
  obtain r' d where dsd: "dict_setdefault k a (db_saveFrames r0) = (r', d)"
    by (cases "dict_setdefault k a (db_saveFrames r0)") auto
  from assms r0 ai dsd have r: "r = PRef r'"
    and s1: "s1 = store c (ODataBlock (r0\<lparr>db_saveFrames := d\<rparr>)) s"
    by (auto simp: db_setSaveFrame_register_def)
  have l1: "lookup s1 c = Some (ODataBlock (r0\<lparr>db_saveFrames := d\<rparr>))"
    unfolding s1 using r0 by (rule lookup_store_same)
  have a1: "attr_id s1 x = Some (a, k)"
    unfolding s1 using attr_id_store [OF r0, of "ODataBlock (r0\<lparr>db_saveFrames := d\<rparr>)" x] ai
    by (simp add: obj_id_def)
  have "store c (ODataBlock (r0\<lparr>db_saveFrames := d\<rparr>)) s1 = s1"
    using l1 by (rule store_same)
  then show ?thesis
    using l1 a1 dsd_idem [OF dsd] r by (simp add: db_setSaveFrame_register_def)
qed

lemma dbsf_register_preserve:
  assumes "db_setSaveFrame_register c x s = (Inr r, s1)"
    and "lookup s c = Some (ODataBlock r0)" and "map_of (db_saveFrames r0) k' = Some b"
  shows "\<exists>r1. lookup s1 c = Some (ODataBlock r1) \<and> map_of (db_saveFrames r1) k' = Some b"
proof -
  from assms obtain a k where ai: "attr_id s x = Some (a, k)"
    by (auto simp: db_setSaveFrame_register_def split: option.splits)
  obtain r' d where dsd: "dict_setdefault k a (db_saveFrames r0) = (r', d)"
    by (cases "dict_setdefault k a (db_saveFrames r0)") auto
  from assms ai dsd have s1: "s1 = store c (ODataBlock (r0\<lparr>db_saveFrames := d\<rparr>)) s"
    by (auto simp: db_setSaveFrame_register_def)
  have l1: "lookup s1 c = Some (ODataBlock (r0\<lparr>db_saveFrames := d\<rparr>))"
    unfolding s1 using assms(2) by (rule lookup_store_same)
  with dsd_preserve [OF dsd assms(3)] show ?thesis by simp
qed

lemma dbsf_init:
  assumes "lookup s c = Some (ODataBlock r0)"
  shows "SaveFrame_init m c s =
           (Inr (length (heap s)),
            store c (ODataBlock (r0\<lparr>db_saveFrames := dict_set (m) (length (heap s)) (db_saveFrames r0)\<rparr>))
              (snd (alloc (OSaveFrame \<lparr>sf_id = m, sf_categories = [], sf_recycleBin = [], sf_parent = c\<rparr>) s)))"
  using assms lookup_Some_less [OF assms]
  by (simp add: SaveFrame_init_def Let_def split_beta fst_alloc lookup_alloc)

lemma dbsf_first_call:
  assumes r0: "lookup s c = Some (ODataBlock r0)"
  shows "\<exists>a s0 r1. DataBlock_setSaveFrame c (PStr n) s = db_setSaveFrame_register c (PRef a) s0
            \<and> lookup s0 c = Some (ODataBlock r1) \<and> map_of (db_saveFrames r1) (n) = Some a
            \<and> (map_of (db_saveFrames r0) (n) = None \<longrightarrow> attr_id s0 (PRef a) = Some (a, n))
            \<and> (map_of (db_saveFrames r0) (n) \<noteq> None \<longrightarrow> s0 = s)"
proof (cases "map_of (db_saveFrames r0) (n)")
  case None
  let ?m = "n"
  let ?new = "length (heap s)"
  let ?r1 = "r0\<lparr>db_saveFrames := dict_set ?m ?new (db_saveFrames r0)\<rparr>"
  have ini: "SaveFrame_init ?m c s =
               (Inr ?new, store c (ODataBlock ?r1) (snd (alloc (OSaveFrame \<lparr>sf_id = ?m, sf_categories = [], sf_recycleBin = [], sf_parent = c\<rparr>) s)))"
    using dbsf_init [OF r0, of ?m] by simp
  let ?s0 = "store c (ODataBlock ?r1) (snd (alloc (OSaveFrame \<lparr>sf_id = ?m, sf_categories = [], sf_recycleBin = [], sf_parent = c\<rparr>) s))"
  from lookup_Some_less [OF r0] have cl: "c < length (heap s)" .
  have "DataBlock_setSaveFrame c (PStr n) s = db_setSaveFrame_register c (PRef ?new) ?s0"
    using r0 None ini by (simp add: DataBlock_setSaveFrame_def)
  moreover have "lookup ?s0 c = Some (ODataBlock ?r1)"
    using cl by (simp add: lookup_store length_heap_alloc)
  moreover have "map_of (db_saveFrames ?r1) ?m = Some ?new" by (simp add: map_of_dict_set)
  moreover have "attr_id ?s0 (PRef ?new) = Some (?new, ?m)"
    using cl by (simp add: attr_id_def lookup_store length_heap_alloc lookup_alloc obj_id_def)
  ultimately show ?thesis using None
    by (intro exI [of _ ?new] exI [of _ ?s0] exI [of _ ?r1]) simp
next
  case (Some a)
  with r0 have "DataBlock_setSaveFrame c (PStr n) s = db_setSaveFrame_register c (PRef a) s"
    by (simp add: DataBlock_setSaveFrame_def)
  with r0 Some show ?thesis
    by (intro exI [of _ a] exI [of _ s] exI [of _ r0]) simp
qed

lemma dbsf_idem:
  assumes "DataBlock_setSaveFrame c (PStr n) s = (Inr r, s1)"
  shows "DataBlock_setSaveFrame c (PStr n) s1 = (Inr r, s1)"
proof -
  from assms obtain r0 where r0: "lookup s c = Some (ODataBlock r0)"
    by (auto simp: DataBlock_setSaveFrame_def split: option.splits obj.splits)
  from dbsf_first_call [OF r0, of n] assms obtain a s0 r1
    where reg: "db_setSaveFrame_register c (PRef a) s0 = (Inr r, s1)"
      and l0: "lookup s0 c = Some (ODataBlock r1)" and m0: "map_of (db_saveFrames r1) (n) = Some a"
    by auto
  from dbsf_register_preserve [OF reg l0 m0] obtain r2
    where l1: "lookup s1 c = Some (ODataBlock r2)" and m1: "map_of (db_saveFrames r2) (n) = Some a"
    by blast
  from dbsf_register_idem [OF reg] l1 m1 show ?thesis
    by (simp add: DataBlock_setSaveFrame_def)
qed

lemma dbsf_returns:
  assumes r0: "lookup s c = Some (ODataBlock r0)"
    and ok: "\<And>a. map_of (db_saveFrames r0) (n) = Some a \<Longrightarrow> attr_id s (PRef a) \<noteq> None"
  shows "\<exists>r s1. DataBlock_setSaveFrame c (PStr n) s = (Inr (PRef r), s1)"
proof -
  from dbsf_first_call [OF r0, of n] obtain a s0 r1
    where op: "DataBlock_setSaveFrame c (PStr n) s = db_setSaveFrame_register c (PRef a) s0"
      and l0: "lookup s0 c = Some (ODataBlock r1)" and m0: "map_of (db_saveFrames r1) (n) = Some a"
      and fresh: "map_of (db_saveFrames r0) (n) = None \<longrightarrow> attr_id s0 (PRef a) = Some (a, n)"
      and old: "map_of (db_saveFrames r0) (n) \<noteq> None \<longrightarrow> s0 = s"
    by auto
  have "\<exists>a' k. attr_id s0 (PRef a) = Some (a', k)"
  proof (cases "map_of (db_saveFrames r0) (n)")
    case None
    with fresh show ?thesis by blast
  next
    case (Some b)
    with old have s0: "s0 = s" by simp
    with l0 r0 have "r1 = r0" by simp
    with m0 Some have "b = a" by simp
    with ok [OF Some] s0 show ?thesis by auto
  qed
  then obtain a' k where "attr_id s0 (PRef a) = Some (a', k)" by blast
  from dbsf_register_returns [OF l0 this] op show ?thesis by simp
qed

lemma dbsf_twice:
  assumes r0: "lookup s c = Some (ODataBlock r0)" and ok: "children_are is_SaveFrame s (db_saveFrames r0)"
  shows "\<exists>a s1. DataBlock_setSaveFrame c (PStr n) s = (Inr (PRef a), s1)
              \<and> DataBlock_setSaveFrame c (PStr n) s1 = (Inr (PRef a), s1)"
proof -
  have "\<And>a. map_of (db_saveFrames r0) (n) = Some a \<Longrightarrow> attr_id s (PRef a) \<noteq> None"
    using ok by (rule children_have_id) (simp_all add: is_SaveFrame_has_id)
  from dbsf_returns [OF r0 this] obtain a s1
    where "DataBlock_setSaveFrame c (PStr n) s = (Inr (PRef a), s1)" by blast
  with dbsf_idem [OF this] show ?thesis by blast
qed

subsection \<open>DataBlock.setCategory\<close>

lemma dbcat_register_returns:
  assumes "lookup s c = Some (ODataBlock r0)" and "attr_id s x = Some (a, k)"
  shows "\<exists>r s1. db_setCategory_register c x s = (Inr (PRef r), s1)"
  using assms by (simp add: db_setCategory_register_def split_beta)

lemma dbcat_register_idem:
  assumes "db_setCategory_register c x s = (Inr r, s1)"
  shows "db_setCategory_register c x s1 = (Inr r, s1)"
proof -
  from assms obtain r0 where r0: "lookup s c = Some (ODataBlock r0)"
    by (auto simp: db_setCategory_register_def split: option.splits obj.splits)
  from assms r0 obtain a k where ai: "attr_id s x = Some (a, k)"
    by (auto simp: db_setCategory_register_def split: option.splits)
  obtain r' d where dsd: "dict_setdefault k a (db_categories r0) = (r', d)"
    by (cases "dict_setdefault k a (db_categories r0)") auto
  from assms r0 ai dsd have r: "r = PRef r'"
    and s1: "s1 = store c (ODataBlock (r0\<lparr>db_categories := d\<rparr>)) s"
    by (auto simp: db_setCategory_register_def)
  have l1: "lookup s1 c = Some (ODataBlock (r0\<lparr>db_categories := d\<rparr>))"
    unfolding s1 using r0 by (rule lookup_store_same)
  have a1: "attr_id s1 x = Some (a, k)"
    unfolding s1 using attr_id_store [OF r0, of "ODataBlock (r0\<lparr>db_categories := d\<rparr>)" x] ai
    by (simp add: obj_id_def)
  have "store c (ODataBlock (r0\<lparr>db_categories := d\<rparr>)) s1 = s1"
    using l1 by (rule store_same)
  then show ?thesis
    using l1 a1 dsd_idem [OF dsd] r by (simp add: db_setCategory_register_def)
qed

lemma dbcat_register_preserve:
  assumes "db_setCategory_register c x s = (Inr r, s1)"
    and "lookup s c = Some (ODataBlock r0)" and "map_of (db_categories r0) k' = Some b"
  shows "\<exists>r1. lookup s1 c = Some (ODataBlock r1) \<and> map_of (db_categories r1) k' = Some b"
proof -
  from assms obtain a k where ai: "attr_id s x = Some (a, k)"
    by (auto simp: db_setCategory_register_def split: option.splits)
  obtain r' d where dsd: "dict_setdefault k a (db_categories r0) = (r', d)"
    by (cases "dict_setdefault k a (db_categories r0)") auto
  from assms ai dsd have s1: "s1 = store c (ODataBlock (r0\<lparr>db_categories := d\<rparr>)) s"
    by (auto simp: db_setCategory_register_def)
  have l1: "lookup s1 c = Some (ODataBlock (r0\<lparr>db_categories := d\<rparr>))"
    unfolding s1 using assms(2) by (rule lookup_store_same)
  with dsd_preserve [OF dsd assms(3)] show ?thesis by simp
qed

lemma dbcat_init:
  assumes "lookup s c = Some (ODataBlock r0)"
  shows "Category_init m c s =
           (Inr (length (heap s)),
            store c (ODataBlock (r0\<lparr>db_categories := dict_set (lstrip_underscore m) (length (heap s)) (db_categories r0)\<rparr>))
              (snd (alloc (OCategory \<lparr>c_items = [], c_recycleBin = [], c_isTable = False, c_id = lstrip_underscore m, c_maxTagLength = 0, c_parent = c\<rparr>) s)))"
  using assms lookup_Some_less [OF assms]
  by (simp add: Category_init_def Let_def split_beta fst_alloc lookup_alloc)

lemma dbcat_first_call:
  assumes r0: "lookup s c = Some (ODataBlock r0)"
  shows "\<exists>a s0 r1. DataBlock_setCategory c (PStr n) s = db_setCategory_register c (PRef a) s0
            \<and> lookup s0 c = Some (ODataBlock r1) \<and> map_of (db_categories r1) (lstrip_underscore n) = Some a
            \<and> (map_of (db_categories r0) (lstrip_underscore n) = None \<longrightarrow> attr_id s0 (PRef a) = Some (a, lstrip_underscore n))
            \<and> (map_of (db_categories r0) (lstrip_underscore n) \<noteq> None \<longrightarrow> s0 = s)"
proof (cases "map_of (db_categories r0) (lstrip_underscore n)")
  case None
  let ?m = "lstrip_underscore n"
  let ?new = "length (heap s)"
  let ?r1 = "r0\<lparr>db_categories := dict_set ?m ?new (db_categories r0)\<rparr>"
  have ini: "Category_init ?m c s =
               (Inr ?new, store c (ODataBlock ?r1) (snd (alloc (OCategory \<lparr>c_items = [], c_recycleBin = [], c_isTable = False, c_id = ?m, c_maxTagLength = 0, c_parent = c\<rparr>) s)))"
    using dbcat_init [OF r0, of ?m] by simp
  let ?s0 = "store c (ODataBlock ?r1) (snd (alloc (OCategory \<lparr>c_items = [], c_recycleBin = [], c_isTable = False, c_id = ?m, c_maxTagLength = 0, c_parent = c\<rparr>) s))"
  from lookup_Some_less [OF r0] have cl: "c < length (heap s)" .
  have "DataBlock_setCategory c (PStr n) s = db_setCategory_register c (PRef ?new) ?s0"
    using r0 None ini by (simp add: DataBlock_setCategory_def)
  moreover have "lookup ?s0 c = Some (ODataBlock ?r1)"
    using cl by (simp add: lookup_store length_heap_alloc)
  moreover have "map_of (db_categories ?r1) ?m = Some ?new" by (simp add: map_of_dict_set)
  moreover have "attr_id ?s0 (PRef ?new) = Some (?new, ?m)"
    using cl by (simp add: attr_id_def lookup_store length_heap_alloc lookup_alloc obj_id_def)
  ultimately show ?thesis using None
    by (intro exI [of _ ?new] exI [of _ ?s0] exI [of _ ?r1]) simp
next
  case (Some a)
  with r0 have "DataBlock_setCategory c (PStr n) s = db_setCategory_register c (PRef a) s"
    by (simp add: DataBlock_setCategory_def)
  with r0 Some show ?thesis
    by (intro exI [of _ a] exI [of _ s] exI [of _ r0]) simp
qed

lemma dbcat_idem:
  assumes "DataBlock_setCategory c (PStr n) s = (Inr r, s1)"
  shows "DataBlock_setCategory c (PStr n) s1 = (Inr r, s1)"
proof -
  from assms obtain r0 where r0: "lookup s c = Some (ODataBlock r0)"
    by (auto simp: DataBlock_setCategory_def split: option.splits obj.splits)
  from dbcat_first_call [OF r0, of n] assms obtain a s0 r1
    where reg: "db_setCategory_register c (PRef a) s0 = (Inr r, s1)"
      and l0: "lookup s0 c = Some (ODataBlock r1)" and m0: "map_of (db_categories r1) (lstrip_underscore n) = Some a"
    by auto
  from dbcat_register_preserve [OF reg l0 m0] obtain r2
    where l1: "lookup s1 c = Some (ODataBlock r2)" and m1: "map_of (db_categories r2) (lstrip_underscore n) = Some a"
    by blast
  from dbcat_register_idem [OF reg] l1 m1 show ?thesis
    by (simp add: DataBlock_setCategory_def)
qed

lemma dbcat_returns:
  assumes r0: "lookup s c = Some (ODataBlock r0)"
    and ok: "\<And>a. map_of (db_categories r0) (lstrip_underscore n) = Some a \<Longrightarrow> attr_id s (PRef a) \<noteq> None"
  shows "\<exists>r s1. DataBlock_setCategory c (PStr n) s = (Inr (PRef r), s1)"
proof -
  from dbcat_first_call [OF r0, of n] obtain a s0 r1
    where op: "DataBlock_setCategory c (PStr n) s = db_setCategory_register c (PRef a) s0"
      and l0: "lookup s0 c = Some (ODataBlock r1)" and m0: "map_of (db_categories r1) (lstrip_underscore n) = Some a"
      and fresh: "map_of (db_categories r0) (lstrip_underscore n) = None \<longrightarrow> attr_id s0 (PRef a) = Some (a, lstrip_underscore n)"
      and old: "map_of (db_categories r0) (lstrip_underscore n) \<noteq> None \<longrightarrow> s0 = s"
    by auto
  have "\<exists>a' k. attr_id s0 (PRef a) = Some (a', k)"
  proof (cases "map_of (db_categories r0) (lstrip_underscore n)")
    case None
    with fresh show ?thesis by blast
  next
    case (Some b)
    with old have s0: "s0 = s" by simp
    with l0 r0 have "r1 = r0" by simp
    with m0 Some have "b = a" by simp
    with ok [OF Some] s0 show ?thesis by auto
  qed
  then obtain a' k where "attr_id s0 (PRef a) = Some (a', k)" by blast
  from dbcat_register_returns [OF l0 this] op show ?thesis by simp
qed

lemma dbcat_twice:
  assumes r0: "lookup s c = Some (ODataBlock r0)" and ok: "children_are is_Category s (db_categories r0)"
  shows "\<exists>a s1. DataBlock_setCategory c (PStr n) s = (Inr (PRef a), s1)
              \<and> DataBlock_setCategory c (PStr n) s1 = (Inr (PRef a), s1)"
proof -
  have "\<And>a. map_of (db_categories r0) (lstrip_underscore n) = Some a \<Longrightarrow> attr_id s (PRef a) \<noteq> None"
    using ok by (rule children_have_id) (simp_all add: is_Category_has_id)
  from dbcat_returns [OF r0 this] obtain a s1
    where "DataBlock_setCategory c (PStr n) s = (Inr (PRef a), s1)" by blast
  with dbcat_idem [OF this] show ?thesis by blast
qed

subsection \<open>SaveFrame.setCategory\<close>

lemma sfcat_register_returns:
  assumes "lookup s c = Some (OSaveFrame r0)" and "attr_id s x = Some (a, k)"
  shows "\<exists>r s1. sf_setCategory_register c x s = (Inr (PRef r), s1)"
  using assms by (simp add: sf_setCategory_register_def split_beta)

lemma sfcat_register_idem:
  assumes "sf_setCategory_register c x s = (Inr r, s1)"
  shows "sf_setCategory_register c x s1 = (Inr r, s1)"
proof -
  from assms obtain r0 where r0: "lookup s c = Some (OSaveFrame r0)"
    by (auto simp: sf_setCategory_register_def split: option.splits obj.splits)
  from assms r0 obtain a k where ai: "attr_id s x = Some (a, k)"
    by (auto simp: sf_setCategory_register_def split: option.splits)
  obtain r' d where dsd: "dict_setdefault k a (sf_categories r0) = (r', d)"
    by (cases "dict_setdefault k a (sf_categories r0)") auto
  from assms r0 ai dsd have r: "r = PRef r'"
    and s1: "s1 = store c (OSaveFrame (r0\<lparr>sf_categories := d\<rparr>)) s"
    by (auto simp: sf_setCategory_register_def)
  have l1: "lookup s1 c = Some (OSaveFrame (r0\<lparr>sf_categories := d\<rparr>))"
    unfolding s1 using r0 by (rule lookup_store_same)
  have a1: "attr_id s1 x = Some (a, k)"
    unfolding s1 using attr_id_store [OF r0, of "OSaveFrame (r0\<lparr>sf_categories := d\<rparr>)" x] ai
    by (simp add: obj_id_def)
  have "store c (OSaveFrame (r0\<lparr>sf_categories := d\<rparr>)) s1 = s1"
    using l1 by (rule store_same)
  then show ?thesis
    using l1 a1 dsd_idem [OF dsd] r by (simp add: sf_setCategory_register_def)
qed

lemma sfcat_register_preserve:
  assumes "sf_setCategory_register c x s = (Inr r, s1)"
    and "lookup s c = Some (OSaveFrame r0)" and "map_of (sf_categories r0) k' = Some b"
  shows "\<exists>r1. lookup s1 c = Some (OSaveFrame r1) \<and> map_of (sf_categories r1) k' = Some b"
proof -
  from assms obtain a k where ai: "attr_id s x = Some (a, k)"
    by (auto simp: sf_setCategory_register_def split: option.splits)
  obtain r' d where dsd: "dict_setdefault k a (sf_categories r0) = (r', d)"
    by (cases "dict_setdefault k a (sf_categories r0)") auto
  from assms ai dsd have s1: "s1 = store c (OSaveFrame (r0\<lparr>sf_categories := d\<rparr>)) s"
    by (auto simp: sf_setCategory_register_def)
  have l1: "lookup s1 c = Some (OSaveFrame (r0\<lparr>sf_categories := d\<rparr>))"
    unfolding s1 using assms(2) by (rule lookup_store_same)
  with dsd_preserve [OF dsd assms(3)] show ?thesis by simp
qed

lemma sfcat_init:
  assumes "lookup s c = Some (OSaveFrame r0)"
  shows "Category_init m c s =
           (Inr (length (heap s)),
            store c (OSaveFrame (r0\<lparr>sf_categories := dict_set (lstrip_underscore m) (length (heap s)) (sf_categories r0)\<rparr>))
              (snd (alloc (OCategory \<lparr>c_items = [], c_recycleBin = [], c_isTable = False, c_id = lstrip_underscore m, c_maxTagLength = 0, c_parent = c\<rparr>) s)))"
  using assms lookup_Some_less [OF assms]
  by (simp add: Category_init_def Let_def split_beta fst_alloc lookup_alloc)

lemma sfcat_first_call:
  assumes r0: "lookup s c = Some (OSaveFrame r0)"
  shows "\<exists>a s0 r1. SaveFrame_setCategory c (PStr n) s = sf_setCategory_register c (PRef a) s0
            \<and> lookup s0 c = Some (OSaveFrame r1) \<and> map_of (sf_categories r1) (lstrip_underscore n) = Some a
            \<and> (map_of (sf_categories r0) (lstrip_underscore n) = None \<longrightarrow> attr_id s0 (PRef a) = Some (a, lstrip_underscore n))
            \<and> (map_of (sf_categories r0) (lstrip_underscore n) \<noteq> None \<longrightarrow> s0 = s)"
proof (cases "map_of (sf_categories r0) (lstrip_underscore n)")
  case None
  let ?m = "lstrip_underscore n"
  let ?new = "length (heap s)"
  let ?r1 = "r0\<lparr>sf_categories := dict_set ?m ?new (sf_categories r0)\<rparr>"
  have ini: "Category_init ?m c s =
               (Inr ?new, store c (OSaveFrame ?r1) (snd (alloc (OCategory \<lparr>c_items = [], c_recycleBin = [], c_isTable = False, c_id = ?m, c_maxTagLength = 0, c_parent = c\<rparr>) s)))"
    using sfcat_init [OF r0, of ?m] by simp
  let ?s0 = "store c (OSaveFrame ?r1) (snd (alloc (OCategory \<lparr>c_items = [], c_recycleBin = [], c_isTable = False, c_id = ?m, c_maxTagLength = 0, c_parent = c\<rparr>) s))"
  from lookup_Some_less [OF r0] have cl: "c < length (heap s)" .
  have "SaveFrame_setCategory c (PStr n) s = sf_setCategory_register c (PRef ?new) ?s0"
    using r0 None ini by (simp add: SaveFrame_setCategory_def)
  moreover have "lookup ?s0 c = Some (OSaveFrame ?r1)"
    using cl by (simp add: lookup_store length_heap_alloc)
  moreover have "map_of (sf_categories ?r1) ?m = Some ?new" by (simp add: map_of_dict_set)
  moreover have "attr_id ?s0 (PRef ?new) = Some (?new, ?m)"
    using cl by (simp add: attr_id_def lookup_store length_heap_alloc lookup_alloc obj_id_def)
  ultimately show ?thesis using None
    by (intro exI [of _ ?new] exI [of _ ?s0] exI [of _ ?r1]) simp
next
  case (Some a)
  with r0 have "SaveFrame_setCategory c (PStr n) s = sf_setCategory_register c (PRef a) s"
    by (simp add: SaveFrame_setCategory_def)
  with r0 Some show ?thesis
    by (intro exI [of _ a] exI [of _ s] exI [of _ r0]) simp
qed

lemma sfcat_idem:
  assumes "SaveFrame_setCategory c (PStr n) s = (Inr r, s1)"
  shows "SaveFrame_setCategory c (PStr n) s1 = (Inr r, s1)"
proof -
  from assms obtain r0 where r0: "lookup s c = Some (OSaveFrame r0)"
    by (auto simp: SaveFrame_setCategory_def split: option.splits obj.splits)
  from sfcat_first_call [OF r0, of n] assms obtain a s0 r1
    where reg: "sf_setCategory_register c (PRef a) s0 = (Inr r, s1)"
      and l0: "lookup s0 c = Some (OSaveFrame r1)" and m0: "map_of (sf_categories r1) (lstrip_underscore n) = Some a"
    by auto
  from sfcat_register_preserve [OF reg l0 m0] obtain r2
    where l1: "lookup s1 c = Some (OSaveFrame r2)" and m1: "map_of (sf_categories r2) (lstrip_underscore n) = Some a"
    by blast
  from sfcat_register_idem [OF reg] l1 m1 show ?thesis
    by (simp add: SaveFrame_setCategory_def)
qed

lemma sfcat_returns:
  assumes r0: "lookup s c = Some (OSaveFrame r0)"
    and ok: "\<And>a. map_of (sf_categories r0) (lstrip_underscore n) = Some a \<Longrightarrow> attr_id s (PRef a) \<noteq> None"
  shows "\<exists>r s1. SaveFrame_setCategory c (PStr n) s = (Inr (PRef r), s1)"
proof -
  from sfcat_first_call [OF r0, of n] obtain a s0 r1
    where op: "SaveFrame_setCategory c (PStr n) s = sf_setCategory_register c (PRef a) s0"
      and l0: "lookup s0 c = Some (OSaveFrame r1)" and m0: "map_of (sf_categories r1) (lstrip_underscore n) = Some a"
      and fresh: "map_of (sf_categories r0) (lstrip_underscore n) = None \<longrightarrow> attr_id s0 (PRef a) = Some (a, lstrip_underscore n)"
      and old: "map_of (sf_categories r0) (lstrip_underscore n) \<noteq> None \<longrightarrow> s0 = s"
    by auto
  have "\<exists>a' k. attr_id s0 (PRef a) = Some (a', k)"
  proof (cases "map_of (sf_categories r0) (lstrip_underscore n)")
    case None
    with fresh show ?thesis by blast
  next
    case (Some b)
    with old have s0: "s0 = s" by simp
    with l0 r0 have "r1 = r0" by simp
    with m0 Some have "b = a" by simp
    with ok [OF Some] s0 show ?thesis by auto
  qed
  then obtain a' k where "attr_id s0 (PRef a) = Some (a', k)" by blast
  from sfcat_register_returns [OF l0 this] op show ?thesis by simp
qed

lemma sfcat_twice:
  assumes r0: "lookup s c = Some (OSaveFrame r0)" and ok: "children_are is_Category s (sf_categories r0)"
  shows "\<exists>a s1. SaveFrame_setCategory c (PStr n) s = (Inr (PRef a), s1)
              \<and> SaveFrame_setCategory c (PStr n) s1 = (Inr (PRef a), s1)"
proof -
  have "\<And>a. map_of (sf_categories r0) (lstrip_underscore n) = Some a \<Longrightarrow> attr_id s (PRef a) \<noteq> None"
    using ok by (rule children_have_id) (simp_all add: is_Category_has_id)
  from sfcat_returns [OF r0 this] obtain a s1
    where "SaveFrame_setCategory c (PStr n) s = (Inr (PRef a), s1)" by blast
  with sfcat_idem [OF this] show ?thesis by blast
qed

subsection \<open>Category.setItem\<close>

lemma attr_value_store_category:
  "attr_value (store c (OCategory cat) s) a = (if a = c then None else attr_value s a)"
  by (auto simp: attr_value_def lookup_def store_def)

lemma attr_id_item:
  assumes "lookup s a = Some (OItem it)"
  shows "attr_id s (PRef a) = Some (a, i_id it)"
  using assms by (simp add: attr_id_def obj_id_def)

lemma item_register_unfold:
  assumes cat: "lookup s c = Some (OCategory cat)" and ai: "attr_id s x = Some (a, iid)"
    and it: "lookup s a = Some (OItem it)"
    and n: "n = length (''_'' @ c_id cat @ iid)"
    and cat1: "cat1 = cat\<lparr>c_maxTagLength := (if n > c_maxTagLength cat then n else c_maxTagLength cat)\<rparr>"
    and cat2: "cat2 = (if i_value it \<noteq> PNone \<and> is_list (i_value it) \<and> \<not> c_isTable cat1
                       then cat1\<lparr>c_isTable := True\<rparr> else cat1)"
    and rd: "rd = dict_setdefault iid a (c_items cat2)"
  shows "setItem_register c x s =
           (Inr (PRef (fst rd)), store c (OCategory (cat2\<lparr>c_items := snd rd\<rparr>)) s)"
proof -
  from cat it have ac: "a \<noteq> c" by auto
  have "attr_value s a = Some (i_value it)" using it by (simp add: attr_value_def)
  with cat ai ac show ?thesis
    unfolding n cat1 cat2 rd
    by (simp add: setItem_register_def Let_def attr_value_store_category split_beta store_store)
qed

lemma item_register_cases:
  assumes "setItem_register c x s = (Inr r, s2)"
  shows "(r = PNone \<and> s2 = s \<and> attr_id s x = None \<and> (\<exists>cat. lookup s c = Some (OCategory cat)))
       \<or> (\<exists>cat a iid it. lookup s c = Some (OCategory cat) \<and> attr_id s x = Some (a, iid)
             \<and> lookup s a = Some (OItem it))"
proof -
  from assms obtain cat where cat: "lookup s c = Some (OCategory cat)"
    by (auto simp: setItem_register_def split: option.splits obj.splits)
  show ?thesis
  proof (cases "attr_id s x")
    case None
    with assms cat show ?thesis by (simp add: setItem_register_def)
  next
    case (Some p)
    obtain a iid where p: "p = (a, iid)" by (cases p) auto
    have "attr_value s a \<noteq> None"
    proof
      assume "attr_value s a = None"
      then have "attr_value (store c (OCategory cat') s) a = None" for cat'
        by (simp add: attr_value_store_category)
      with assms cat Some p show False
        by (simp add: setItem_register_def Let_def)
    qed
    then obtain it where "lookup s a = Some (OItem it)"
      by (auto simp: attr_value_def split: option.splits obj.splits)
    with cat Some p show ?thesis by blast
  qed
qed

lemma item_register_idem:
  assumes "setItem_register c x s = (Inr r, s2)"
  shows "setItem_register c x s2 = (Inr r, s2)"
proof -
  from item_register_cases [OF assms]
  consider (none) "r = PNone" "s2 = s" "attr_id s x = None"
      "\<exists>cat. lookup s c = Some (OCategory cat)"
    | (some) cat a iid it where "lookup s c = Some (OCategory cat)"
        "attr_id s x = Some (a, iid)" "lookup s a = Some (OItem it)"
    by auto
  then show ?thesis
  proof cases
    case none
    then show ?thesis by (auto simp: setItem_register_def)
  next
    case some
    note cat = some(1) and ai = some(2) and it = some(3)
    from cat it have ac: "a \<noteq> c" by auto
    define n where "n = length (''_'' @ c_id cat @ iid)"
    define cat1 where
      "cat1 = cat\<lparr>c_maxTagLength := (if n > c_maxTagLength cat then n else c_maxTagLength cat)\<rparr>"
    define cat2 where
      "cat2 = (if i_value it \<noteq> PNone \<and> is_list (i_value it) \<and> \<not> c_isTable cat1
               then cat1\<lparr>c_isTable := True\<rparr> else cat1)"
    define rd where "rd = dict_setdefault iid a (c_items cat2)"
    define cat3 where "cat3 = cat2\<lparr>c_items := snd rd\<rparr>"
    from assms item_register_unfold [OF cat ai it n_def cat1_def cat2_def rd_def]
    have r: "r = PRef (fst rd)" and s2: "s2 = store c (OCategory cat3) s"
      by (simp_all add: cat3_def)
    have cat': "lookup s2 c = Some (OCategory cat3)"
      unfolding s2 using cat by (rule lookup_store_same)
    have id3: "c_id cat3 = c_id cat"
      by (simp add: cat3_def cat2_def cat1_def)
    have ai': "attr_id s2 x = Some (a, iid)"
      unfolding s2 using attr_id_store [OF cat, of "OCategory cat3" x] ai id3
      by (simp add: obj_id_def)
    have it': "lookup s2 a = Some (OItem it)"
      unfolding s2 using ac it by (simp add: lookup_store_other)
    have mt: "(if n > c_maxTagLength cat3 then n else c_maxTagLength cat3) = c_maxTagLength cat3"
      by (simp add: cat3_def cat2_def cat1_def)
    have tb: "i_value it \<noteq> PNone \<and> is_list (i_value it) \<longrightarrow> c_isTable cat3"
      by (simp add: cat3_def cat2_def)
    have ds: "dict_setdefault iid a (c_items cat3) = rd"
      using dsd_idem [of iid a "c_items cat2" "fst rd" "snd rd"]
      by (simp add: cat3_def rd_def)
    have c3: "cat3\<lparr>c_items := snd rd\<rparr> = cat3" by (simp add: cat3_def)
    have n': "n = length (''_'' @ c_id cat3 @ iid)" by (simp add: id3 n_def)
    have cat1': "cat3 = cat3\<lparr>c_maxTagLength :=
                   (if n > c_maxTagLength cat3 then n else c_maxTagLength cat3)\<rparr>"
      using mt by simp
    have cat2': "cat3 = (if i_value it \<noteq> PNone \<and> is_list (i_value it) \<and> \<not> c_isTable cat3
                         then cat3\<lparr>c_isTable := True\<rparr> else cat3)"
      using tb by auto
    have "setItem_register c x s2 = (Inr (PRef (fst rd)), store c (OCategory cat3) s2)"
      using item_register_unfold [OF cat' ai' it' n' cat1' cat2' ds [symmetric]] c3 by simp
    with store_same [OF cat'] r show ?thesis by simp
  qed
qed

lemma item_register_preserve:
  assumes "setItem_register c x s = (Inr r, s2)"
    and "lookup s c = Some (OCategory cat)" and "map_of (c_items cat) k' = Some b"
  shows "\<exists>cat'. lookup s2 c = Some (OCategory cat') \<and> map_of (c_items cat') k' = Some b"
proof -
  from item_register_cases [OF assms(1)] assms(2)
  consider (none) "s2 = s"
    | (some) a iid it where "attr_id s x = Some (a, iid)" "lookup s a = Some (OItem it)"
    by auto
  then show ?thesis
  proof cases
    case none
    with assms show ?thesis by simp
  next
    case some
    define n where "n = length (''_'' @ c_id cat @ iid)"
    define cat1 where
      "cat1 = cat\<lparr>c_maxTagLength := (if n > c_maxTagLength cat then n else c_maxTagLength cat)\<rparr>"
    define cat2 where
      "cat2 = (if i_value it \<noteq> PNone \<and> is_list (i_value it) \<and> \<not> c_isTable cat1
               then cat1\<lparr>c_isTable := True\<rparr> else cat1)"
    define rd where "rd = dict_setdefault iid a (c_items cat2)"
    define cat3 where "cat3 = cat2\<lparr>c_items := snd rd\<rparr>"
    from assms(1) item_register_unfold [OF assms(2) some n_def cat1_def cat2_def rd_def]
    have s2: "s2 = store c (OCategory cat3) s"
      by (simp add: cat3_def)
    have cat': "lookup s2 c = Some (OCategory cat3)"
      unfolding s2 using assms(2) by (rule lookup_store_same)
    have "c_items cat2 = c_items cat" by (simp add: cat2_def cat1_def)
    with assms(3) dsd_preserve [of iid a "c_items cat2" "fst rd" "snd rd" k' b]
    have "map_of (c_items cat3) k' = Some b" by (simp add: cat3_def rd_def)
    with cat' show ?thesis by blast
  qed
qed

lemma item_init:
  assumes "lookup s c = Some (OCategory cat)"
  shows "Item_init m c s =
           (Inr (length (heap s)),
            store c (OCategory (cat\<lparr>c_items := dict_set m (length (heap s)) (c_items cat)\<rparr>))
              (snd (alloc (OItem \<lparr>i_value = PNone, i_type = PStrClass, i_mandatory = False,
                                  i_isColumn = False, i_id = m, i_name = m,
                                  i_lineno = PInt (- 1), i_parent = c\<rparr>) s)))"
  using assms lookup_Some_less [OF assms]
  by (simp add: Item_init_def Let_def split_beta fst_alloc lookup_alloc)

lemma item_first_call:
  assumes cat: "lookup s c = Some (OCategory cat)"
  shows "\<exists>a s0 cat0. Category_setItem c (PStr n) s = setItem_register c (PRef a) s0
            \<and> lookup s0 c = Some (OCategory cat0) \<and> map_of (c_items cat0) n = Some a
            \<and> (map_of (c_items cat) n = None \<longrightarrow> is_Item s0 a)
            \<and> (map_of (c_items cat) n \<noteq> None \<longrightarrow> s0 = s)"
proof (cases "map_of (c_items cat) n")
  case None
  let ?new = "length (heap s)"
  let ?cat0 = "cat\<lparr>c_items := dict_set n ?new (c_items cat)\<rparr>"
  let ?it = "\<lparr>i_value = PNone, i_type = PStrClass, i_mandatory = False,
              i_isColumn = False, i_id = n, i_name = n,
              i_lineno = PInt (- 1), i_parent = c\<rparr>"
  let ?s0 = "store c (OCategory ?cat0) (snd (alloc (OItem ?it) s))"
  from lookup_Some_less [OF cat] have cl: "c < length (heap s)" .
  have "Category_setItem c (PStr n) s = setItem_register c (PRef ?new) ?s0"
    using cat None item_init [OF cat, of n] by (simp add: Category_setItem_def)
  moreover have "lookup ?s0 c = Some (OCategory ?cat0)"
    using cl by (simp add: lookup_store length_heap_alloc)
  moreover have "map_of (c_items ?cat0) n = Some ?new" by (simp add: map_of_dict_set)
  moreover have "is_Item ?s0 ?new"
    using cl by (simp add: is_Item_def lookup_store length_heap_alloc lookup_alloc)
  ultimately show ?thesis using None
    by (intro exI [of _ ?new] exI [of _ ?s0] exI [of _ ?cat0]) simp
next
  case (Some a)
  with cat have "Category_setItem c (PStr n) s = setItem_register c (PRef a) s"
    by (simp add: Category_setItem_def)
  with cat Some show ?thesis
    by (intro exI [of _ a] exI [of _ s] exI [of _ cat]) simp
qed

lemma item_idem:
  assumes "Category_setItem c (PStr n) s = (Inr r, s1)"
  shows "Category_setItem c (PStr n) s1 = (Inr r, s1)"
proof -
  from assms obtain cat where cat: "lookup s c = Some (OCategory cat)"
    by (auto simp: Category_setItem_def split: option.splits obj.splits)
  from item_first_call [OF cat, of n] assms obtain a s0 cat0
    where reg: "setItem_register c (PRef a) s0 = (Inr r, s1)"
      and l0: "lookup s0 c = Some (OCategory cat0)" and m0: "map_of (c_items cat0) n = Some a"
    by auto
  from item_register_preserve [OF reg l0 m0] obtain cat1
    where l1: "lookup s1 c = Some (OCategory cat1)" and m1: "map_of (c_items cat1) n = Some a"
    by blast
  from item_register_idem [OF reg] l1 m1 show ?thesis
    by (simp add: Category_setItem_def)
qed

lemma item_register_returns:
  assumes "lookup s c = Some (OCategory cat)" and "is_Item s a"
  shows "\<exists>r s1. setItem_register c (PRef a) s = (Inr (PRef r), s1)"
proof -
  from assms(2) obtain it where it: "lookup s a = Some (OItem it)"
    by (auto simp: is_Item_def split: option.splits obj.splits)
  from item_register_unfold [OF assms(1) attr_id_item [OF it] it refl refl refl refl]
  show ?thesis by simp
qed

lemma item_twice:
  assumes cat: "lookup s c = Some (OCategory cat)" and ok: "children_are is_Item s (c_items cat)"
  shows "\<exists>a s1. Category_setItem c (PStr n) s = (Inr (PRef a), s1)
              \<and> Category_setItem c (PStr n) s1 = (Inr (PRef a), s1)"
proof -
  from item_first_call [OF cat, of n] obtain a s0 cat0
    where op: "Category_setItem c (PStr n) s = setItem_register c (PRef a) s0"
      and l0: "lookup s0 c = Some (OCategory cat0)" and m0: "map_of (c_items cat0) n = Some a"
      and fresh: "map_of (c_items cat) n = None \<longrightarrow> is_Item s0 a"
      and old: "map_of (c_items cat) n \<noteq> None \<longrightarrow> s0 = s"
    by auto
  have "is_Item s0 a"
  proof (cases "map_of (c_items cat) n")
    case None
    with fresh show ?thesis by blast
  next
    case (Some b)
    with old have s0: "s0 = s" by simp
    with l0 cat have "cat0 = cat" by simp
    with m0 Some have "b = a" by simp
    from Some have "(n, b) \<in> set (c_items cat)" by (rule map_of_SomeD)
    with ok \<open>b = a\<close> s0 show ?thesis by (auto simp: children_are_def list_all_iff)
  qed
  from item_register_returns [OF l0 this] op obtain r s1
    where "Category_setItem c (PStr n) s = (Inr (PRef r), s1)" by auto
  with item_idem [OF this] show ?thesis by blast
qed

section \<open>Construct-or-fetch is idempotent\<close>

lemma dsd_result: "dict_setdefault k v d = (r, d') \<Longrightarrow> map_of d' k = Some r"
  by (auto simp: dict_setdefault_def map_of_dict_set split: option.splits)

lemma file_register_exact:
  assumes "lookup s0 c = Some (OCifFile r1)" and "attr_id s0 (PRef a) = Some (a, k)"
    and "map_of (f_data_blocks r1) k = Some a"
  shows "CifFile_setDataBlock_register c (PRef a) s0 = (Inr (PRef a), s0)"
proof -
  have "CifFile_setDataBlock_register c (PRef a) s0 = (Inr (PRef a), store c (OCifFile r1) s0)"
    using assms dsd_present [OF assms(3), of a] by (simp add: CifFile_setDataBlock_register_def)
  with store_same [OF assms(1)] show ?thesis by simp
qed

lemma file_register_member:
  assumes "CifFile_setDataBlock_register c x s = (Inr (PRef r), s1)"
  shows "r \<in> set (CifFile_getDataBlocks c s1)"
proof -
  from assms obtain r0 where r0: "lookup s c = Some (OCifFile r0)"
    by (auto simp: CifFile_setDataBlock_register_def split: option.splits obj.splits)
  from assms r0 obtain a k where ai: "attr_id s x = Some (a, k)"
    by (auto simp: CifFile_setDataBlock_register_def split: option.splits)
  obtain r' d where dsd: "dict_setdefault k a (f_data_blocks r0) = (r', d)"
    by (cases "dict_setdefault k a (f_data_blocks r0)") auto
  from assms r0 ai dsd have r: "r = r'"
    and s1: "s1 = store c (OCifFile (r0\<lparr>f_data_blocks := d\<rparr>)) s"
    by (auto simp: CifFile_setDataBlock_register_def)
  have l1: "lookup s1 c = Some (OCifFile (r0\<lparr>f_data_blocks := d\<rparr>))"
    unfolding s1 using r0 by (rule lookup_store_same)
  from dsd_result [OF dsd] r have "(k, r) \<in> set d" by (auto dest: map_of_SomeD)
  then have "r \<in> snd ` set d" by force
  with l1 show ?thesis by (simp add: CifFile_getDataBlocks_def)
qed

lemma file_new_name:
  assumes r0: "lookup s c = Some (OCifFile r0)" and none: "map_of (f_data_blocks r0) (n) = None"
  shows "\<exists>s1 r1. CifFile_setDataBlock c (PStr n) s = (Inr (PRef (length (heap s))), s1)
           \<and> lookup s1 c = Some (OCifFile r1)
           \<and> map_of (f_data_blocks r1) (n) = Some (length (heap s))"
proof -
  let ?m = "n"
  let ?new = "length (heap s)"
  let ?r1 = "r0\<lparr>f_data_blocks := dict_set ?m ?new (f_data_blocks r0)\<rparr>"
  let ?s0 = "store c (OCifFile ?r1) (snd (alloc (ODataBlock \<lparr>db_id = ?m, db_categories = [], db_saveFrames = [], db_recycleBin = [], db_parent = c\<rparr>) s))"
  have ini: "DataBlock_init ?m c s = (Inr ?new, ?s0)"
    using file_init [OF r0, of ?m] by simp
  from lookup_Some_less [OF r0] have cl: "c < length (heap s)" .
  have op: "CifFile_setDataBlock c (PStr n) s = CifFile_setDataBlock_register c (PRef ?new) ?s0"
    using r0 none ini by (simp add: CifFile_setDataBlock_def)
  have l0: "lookup ?s0 c = Some (OCifFile ?r1)"
    using cl by (simp add: lookup_store length_heap_alloc)
  have m0: "map_of (f_data_blocks ?r1) ?m = Some ?new" by (simp add: map_of_dict_set)
  have a0: "attr_id ?s0 (PRef ?new) = Some (?new, ?m)"
    using cl by (simp add: attr_id_def lookup_store length_heap_alloc lookup_alloc obj_id_def)
  from file_register_exact [OF l0 a0 m0] op l0 m0 show ?thesis
    by (intro exI [of _ ?s0] exI [of _ ?r1]) simp
qed

lemma file_live_name:
  assumes r0: "lookup s c = Some (OCifFile r0)" and some: "map_of (f_data_blocks r0) (n) = Some x"
    and id: "attr_id s (PRef x) = Some (x, n)"
  shows "CifFile_setDataBlock c (PStr n) s = (Inr (PRef x), s)"
proof -
  have "CifFile_setDataBlock c (PStr n) s = CifFile_setDataBlock_register c (PRef x) s"
    using r0 some by (simp add: CifFile_setDataBlock_def)
  with file_register_exact [OF r0 id some] show ?thesis by simp
qed

lemma file_same_child_twice:
  assumes r0: "lookup s c = Some (OCifFile r0)" and ok: "children_are is_DataBlock s (f_data_blocks r0)"
  shows "same_child_twice CifFile_setDataBlock CifFile_getDataBlock CifFile_getDataBlockIds CifFile_getDataBlocks (\<lambda>n. n) c n s"
proof -
  from file_twice [OF r0 ok, of n] obtain a s1
    where c1: "CifFile_setDataBlock c (PStr n) s = (Inr (PRef a), s1)"
      and c2: "CifFile_setDataBlock c (PStr n) s1 = (Inr (PRef a), s1)" by blast
  from file_first_call [OF r0, of n] c1 obtain a0 s0 r1
    where reg: "CifFile_setDataBlock_register c (PRef a0) s0 = (Inr (PRef a), s1)"
      and l0: "lookup s0 c = Some (OCifFile r1)" and m0: "map_of (f_data_blocks r1) (n) = Some a0"
    by auto
  from file_register_member [OF reg] have mem: "a \<in> set (CifFile_getDataBlocks c s1)" .
  from file_register_preserve [OF reg l0 m0] have live: "CifFile_getDataBlock c n s1 \<noteq> None"
    by (auto simp: CifFile_getDataBlock_def)
  have cases: "(case CifFile_getDataBlock c n s of
                  None \<Rightarrow> CifFile_getDataBlock c n s1 = Some a \<and> \<not> a < length (heap s)
                | Some x \<Rightarrow>
                    attr_id s (PRef x) = Some (x, n) \<longrightarrow>
                      a = x \<and> CifFile_getDataBlockIds c s1 = CifFile_getDataBlockIds c s \<and> CifFile_getDataBlocks c s1 = CifFile_getDataBlocks c s)"
  proof (cases "map_of (f_data_blocks r0) (n)")
    case None
    from file_new_name [OF r0 None] c1 obtain r2
      where "a = length (heap s)" "lookup s1 c = Some (OCifFile r2)"
        "map_of (f_data_blocks r2) (n) = Some (length (heap s))"
      by auto
    with None r0 show ?thesis by (simp add: CifFile_getDataBlock_def)
  next
    case (Some x)
    show ?thesis
    proof (cases "attr_id s (PRef x) = Some (x, n)")
      case True
      from file_live_name [OF r0 Some True] c1 have "a = x" "s1 = s" by simp_all
      with Some r0 show ?thesis by (simp add: CifFile_getDataBlock_def)
    next
      case False
      with Some r0 show ?thesis by (simp add: CifFile_getDataBlock_def)
    qed
  qed
  from c1 c2 mem live cases show ?thesis
    by (simp add: same_child_twice_def)
qed

lemma dbsf_register_exact:
  assumes "lookup s0 c = Some (ODataBlock r1)" and "attr_id s0 (PRef a) = Some (a, k)"
    and "map_of (db_saveFrames r1) k = Some a"
  shows "db_setSaveFrame_register c (PRef a) s0 = (Inr (PRef a), s0)"
proof -
  have "db_setSaveFrame_register c (PRef a) s0 = (Inr (PRef a), store c (ODataBlock r1) s0)"
    using assms dsd_present [OF assms(3), of a] by (simp add: db_setSaveFrame_register_def)
  with store_same [OF assms(1)] show ?thesis by simp
qed

lemma dbsf_register_member:
  assumes "db_setSaveFrame_register c x s = (Inr (PRef r), s1)"
  shows "r \<in> set (DataBlock_getSaveFrames c s1)"
proof -
  from assms obtain r0 where r0: "lookup s c = Some (ODataBlock r0)"
    by (auto simp: db_setSaveFrame_register_def split: option.splits obj.splits)
  from assms r0 obtain a k where ai: "attr_id s x = Some (a, k)"
    by (auto simp: db_setSaveFrame_register_def split: option.splits)
  obtain r' d where dsd: "dict_setdefault k a (db_saveFrames r0) = (r', d)"
    by (cases "dict_setdefault k a (db_saveFrames r0)") auto
  from assms r0 ai dsd have r: "r = r'"
    and s1: "s1 = store c (ODataBlock (r0\<lparr>db_saveFrames := d\<rparr>)) s"
    by (auto simp: db_setSaveFrame_register_def)
  have l1: "lookup s1 c = Some (ODataBlock (r0\<lparr>db_saveFrames := d\<rparr>))"
    unfolding s1 using r0 by (rule lookup_store_same)
  from dsd_result [OF dsd] r have "(k, r) \<in> set d" by (auto dest: map_of_SomeD)
  then have "r \<in> snd ` set d" by force
  with l1 show ?thesis by (simp add: DataBlock_getSaveFrames_def)
qed

lemma dbsf_new_name:
  assumes r0: "lookup s c = Some (ODataBlock r0)" and none: "map_of (db_saveFrames r0) (n) = None"
  shows "\<exists>s1 r1. DataBlock_setSaveFrame c (PStr n) s = (Inr (PRef (length (heap s))), s1)
           \<and> lookup s1 c = Some (ODataBlock r1)
           \<and> map_of (db_saveFrames r1) (n) = Some (length (heap s))"
proof -
  let ?m = "n"
  let ?new = "length (heap s)"
  let ?r1 = "r0\<lparr>db_saveFrames := dict_set ?m ?new (db_saveFrames r0)\<rparr>"
  let ?s0 = "store c (ODataBlock ?r1) (snd (alloc (OSaveFrame \<lparr>sf_id = ?m, sf_categories = [], sf_recycleBin = [], sf_parent = c\<rparr>) s))"
  have ini: "SaveFrame_init ?m c s = (Inr ?new, ?s0)"
    using dbsf_init [OF r0, of ?m] by simp
  from lookup_Some_less [OF r0] have cl: "c < length (heap s)" .
  have op: "DataBlock_setSaveFrame c (PStr n) s = db_setSaveFrame_register c (PRef ?new) ?s0"
    using r0 none ini by (simp add: DataBlock_setSaveFrame_def)
  have l0: "lookup ?s0 c = Some (ODataBlock ?r1)"
    using cl by (simp add: lookup_store length_heap_alloc)
  have m0: "map_of (db_saveFrames ?r1) ?m = Some ?new" by (simp add: map_of_dict_set)
  have a0: "attr_id ?s0 (PRef ?new) = Some (?new, ?m)"
    using cl by (simp add: attr_id_def lookup_store length_heap_alloc lookup_alloc obj_id_def)
  from dbsf_register_exact [OF l0 a0 m0] op l0 m0 show ?thesis
    by (intro exI [of _ ?s0] exI [of _ ?r1]) simp
qed

lemma dbsf_live_name:
  assumes r0: "lookup s c = Some (ODataBlock r0)" and some: "map_of (db_saveFrames r0) (n) = Some x"
    and id: "attr_id s (PRef x) = Some (x, n)"
  shows "DataBlock_setSaveFrame c (PStr n) s = (Inr (PRef x), s)"
proof -
  have "DataBlock_setSaveFrame c (PStr n) s = db_setSaveFrame_register c (PRef x) s"
    using r0 some by (simp add: DataBlock_setSaveFrame_def)
  with dbsf_register_exact [OF r0 id some] show ?thesis by simp
qed

lemma dbsf_same_child_twice:
  assumes r0: "lookup s c = Some (ODataBlock r0)" and ok: "children_are is_SaveFrame s (db_saveFrames r0)"
  shows "same_child_twice DataBlock_setSaveFrame DataBlock_getSaveFrame DataBlock_getSaveFrameIds DataBlock_getSaveFrames (\<lambda>n. n) c n s"
proof -
  from dbsf_twice [OF r0 ok, of n] obtain a s1
    where c1: "DataBlock_setSaveFrame c (PStr n) s = (Inr (PRef a), s1)"
      and c2: "DataBlock_setSaveFrame c (PStr n) s1 = (Inr (PRef a), s1)" by blast
  from dbsf_first_call [OF r0, of n] c1 obtain a0 s0 r1
    where reg: "db_setSaveFrame_register c (PRef a0) s0 = (Inr (PRef a), s1)"
      and l0: "lookup s0 c = Some (ODataBlock r1)" and m0: "map_of (db_saveFrames r1) (n) = Some a0"
    by auto
  from dbsf_register_member [OF reg] have mem: "a \<in> set (DataBlock_getSaveFrames c s1)" .
  from dbsf_register_preserve [OF reg l0 m0] have live: "DataBlock_getSaveFrame c n s1 \<noteq> None"
    by (auto simp: DataBlock_getSaveFrame_def)
  have cases: "(case DataBlock_getSaveFrame c n s of
                  None \<Rightarrow> DataBlock_getSaveFrame c n s1 = Some a \<and> \<not> a < length (heap s)
                | Some x \<Rightarrow>
                    attr_id s (PRef x) = Some (x, n) \<longrightarrow>
                      a = x \<and> DataBlock_getSaveFrameIds c s1 = DataBlock_getSaveFrameIds c s \<and> DataBlock_getSaveFrames c s1 = DataBlock_getSaveFrames c s)"
  proof (cases "map_of (db_saveFrames r0) (n)")
    case None
    from dbsf_new_name [OF r0 None] c1 obtain r2
      where "a = length (heap s)" "lookup s1 c = Some (ODataBlock r2)"
        "map_of (db_saveFrames r2) (n) = Some (length (heap s))"
      by auto
    with None r0 show ?thesis by (simp add: DataBlock_getSaveFrame_def)
  next
    case (Some x)
    show ?thesis
    proof (cases "attr_id s (PRef x) = Some (x, n)")
      case True
      from dbsf_live_name [OF r0 Some True] c1 have "a = x" "s1 = s" by simp_all
      with Some r0 show ?thesis by (simp add: DataBlock_getSaveFrame_def)
    next
      case False
      with Some r0 show ?thesis by (simp add: DataBlock_getSaveFrame_def)
    qed
  qed
  from c1 c2 mem live cases show ?thesis
    by (simp add: same_child_twice_def)
qed

lemma dbcat_register_exact:
  assumes "lookup s0 c = Some (ODataBlock r1)" and "attr_id s0 (PRef a) = Some (a, k)"
    and "map_of (db_categories r1) k = Some a"
  shows "db_setCategory_register c (PRef a) s0 = (Inr (PRef a), s0)"
proof -
  have "db_setCategory_register c (PRef a) s0 = (Inr (PRef a), store c (ODataBlock r1) s0)"
    using assms dsd_present [OF assms(3), of a] by (simp add: db_setCategory_register_def)
  with store_same [OF assms(1)] show ?thesis by simp
qed

lemma dbcat_register_member:
  assumes "db_setCategory_register c x s = (Inr (PRef r), s1)"
  shows "r \<in> set (DataBlock_getCategories c s1)"
proof -
  from assms obtain r0 where r0: "lookup s c = Some (ODataBlock r0)"
    by (auto simp: db_setCategory_register_def split: option.splits obj.splits)
  from assms r0 obtain a k where ai: "attr_id s x = Some (a, k)"
    by (auto simp: db_setCategory_register_def split: option.splits)
  obtain r' d where dsd: "dict_setdefault k a (db_categories r0) = (r', d)"
    by (cases "dict_setdefault k a (db_categories r0)") auto
  from assms r0 ai dsd have r: "r = r'"
    and s1: "s1 = store c (ODataBlock (r0\<lparr>db_categories := d\<rparr>)) s"
    by (auto simp: db_setCategory_register_def)
  have l1: "lookup s1 c = Some (ODataBlock (r0\<lparr>db_categories := d\<rparr>))"
    unfolding s1 using r0 by (rule lookup_store_same)
  from dsd_result [OF dsd] r have "(k, r) \<in> set d" by (auto dest: map_of_SomeD)
  then have "r \<in> snd ` set d" by force
  with l1 show ?thesis by (simp add: DataBlock_getCategories_def)
qed

lemma dbcat_new_name:
  assumes r0: "lookup s c = Some (ODataBlock r0)" and none: "map_of (db_categories r0) (lstrip_underscore n) = None"
  shows "\<exists>s1 r1. DataBlock_setCategory c (PStr n) s = (Inr (PRef (length (heap s))), s1)
           \<and> lookup s1 c = Some (ODataBlock r1)
           \<and> map_of (db_categories r1) (lstrip_underscore n) = Some (length (heap s))"
proof -
  let ?m = "lstrip_underscore n"
  let ?new = "length (heap s)"
  let ?r1 = "r0\<lparr>db_categories := dict_set ?m ?new (db_categories r0)\<rparr>"
  let ?s0 = "store c (ODataBlock ?r1) (snd (alloc (OCategory \<lparr>c_items = [], c_recycleBin = [], c_isTable = False, c_id = ?m, c_maxTagLength = 0, c_parent = c\<rparr>) s))"
  have ini: "Category_init ?m c s = (Inr ?new, ?s0)"
    using dbcat_init [OF r0, of ?m] by simp
  from lookup_Some_less [OF r0] have cl: "c < length (heap s)" .
  have op: "DataBlock_setCategory c (PStr n) s = db_setCategory_register c (PRef ?new) ?s0"
    using r0 none ini by (simp add: DataBlock_setCategory_def)
  have l0: "lookup ?s0 c = Some (ODataBlock ?r1)"
    using cl by (simp add: lookup_store length_heap_alloc)
  have m0: "map_of (db_categories ?r1) ?m = Some ?new" by (simp add: map_of_dict_set)
  have a0: "attr_id ?s0 (PRef ?new) = Some (?new, ?m)"
    using cl by (simp add: attr_id_def lookup_store length_heap_alloc lookup_alloc obj_id_def)
  from dbcat_register_exact [OF l0 a0 m0] op l0 m0 show ?thesis
    by (intro exI [of _ ?s0] exI [of _ ?r1]) simp
qed

lemma dbcat_live_name:
  assumes r0: "lookup s c = Some (ODataBlock r0)" and some: "map_of (db_categories r0) (lstrip_underscore n) = Some x"
    and id: "attr_id s (PRef x) = Some (x, lstrip_underscore n)"
  shows "DataBlock_setCategory c (PStr n) s = (Inr (PRef x), s)"
proof -
  have "DataBlock_setCategory c (PStr n) s = db_setCategory_register c (PRef x) s"
    using r0 some by (simp add: DataBlock_setCategory_def)
  with dbcat_register_exact [OF r0 id some] show ?thesis by simp
qed

lemma dbcat_same_child_twice:
  assumes r0: "lookup s c = Some (ODataBlock r0)" and ok: "children_are is_Category s (db_categories r0)"
  shows "same_child_twice DataBlock_setCategory DataBlock_getCategory DataBlock_getCategoryIds DataBlock_getCategories (\<lambda>n. lstrip_underscore n) c n s"
proof -
  from dbcat_twice [OF r0 ok, of n] obtain a s1
    where c1: "DataBlock_setCategory c (PStr n) s = (Inr (PRef a), s1)"
      and c2: "DataBlock_setCategory c (PStr n) s1 = (Inr (PRef a), s1)" by blast
  from dbcat_first_call [OF r0, of n] c1 obtain a0 s0 r1
    where reg: "db_setCategory_register c (PRef a0) s0 = (Inr (PRef a), s1)"
      and l0: "lookup s0 c = Some (ODataBlock r1)" and m0: "map_of (db_categories r1) (lstrip_underscore n) = Some a0"
    by auto
  from dbcat_register_member [OF reg] have mem: "a \<in> set (DataBlock_getCategories c s1)" .
  from dbcat_register_preserve [OF reg l0 m0] have live: "DataBlock_getCategory c n s1 \<noteq> None"
    by (auto simp: DataBlock_getCategory_def)
  have cases: "(case DataBlock_getCategory c n s of
                  None \<Rightarrow> DataBlock_getCategory c n s1 = Some a \<and> \<not> a < length (heap s)
                | Some x \<Rightarrow>
                    attr_id s (PRef x) = Some (x, lstrip_underscore n) \<longrightarrow>
                      a = x \<and> DataBlock_getCategoryIds c s1 = DataBlock_getCategoryIds c s \<and> DataBlock_getCategories c s1 = DataBlock_getCategories c s)"
  proof (cases "map_of (db_categories r0) (lstrip_underscore n)")
    case None
    from dbcat_new_name [OF r0 None] c1 obtain r2
      where "a = length (heap s)" "lookup s1 c = Some (ODataBlock r2)"
        "map_of (db_categories r2) (lstrip_underscore n) = Some (length (heap s))"
      by auto
    with None r0 show ?thesis by (simp add: DataBlock_getCategory_def)
  next
    case (Some x)
    show ?thesis
    proof (cases "attr_id s (PRef x) = Some (x, lstrip_underscore n)")
      case True
      from dbcat_live_name [OF r0 Some True] c1 have "a = x" "s1 = s" by simp_all
      with Some r0 show ?thesis by (simp add: DataBlock_getCategory_def)
    next
      case False
      with Some r0 show ?thesis by (simp add: DataBlock_getCategory_def)
    qed
  qed
  from c1 c2 mem live cases show ?thesis
    by (simp add: same_child_twice_def)
qed

lemma sfcat_register_exact:
  assumes "lookup s0 c = Some (OSaveFrame r1)" and "attr_id s0 (PRef a) = Some (a, k)"
    and "map_of (sf_categories r1) k = Some a"
  shows "sf_setCategory_register c (PRef a) s0 = (Inr (PRef a), s0)"
proof -
  have "sf_setCategory_register c (PRef a) s0 = (Inr (PRef a), store c (OSaveFrame r1) s0)"
    using assms dsd_present [OF assms(3), of a] by (simp add: sf_setCategory_register_def)
  with store_same [OF assms(1)] show ?thesis by simp
qed

lemma sfcat_register_member:
  assumes "sf_setCategory_register c x s = (Inr (PRef r), s1)"
  shows "r \<in> set (SaveFrame_getCategories c s1)"
proof -
  from assms obtain r0 where r0: "lookup s c = Some (OSaveFrame r0)"
    by (auto simp: sf_setCategory_register_def split: option.splits obj.splits)
  from assms r0 obtain a k where ai: "attr_id s x = Some (a, k)"
    by (auto simp: sf_setCategory_register_def split: option.splits)
  obtain r' d where dsd: "dict_setdefault k a (sf_categories r0) = (r', d)"
    by (cases "dict_setdefault k a (sf_categories r0)") auto
  from assms r0 ai dsd have r: "r = r'"
    and s1: "s1 = store c (OSaveFrame (r0\<lparr>sf_categories := d\<rparr>)) s"
    by (auto simp: sf_setCategory_register_def)
  have l1: "lookup s1 c = Some (OSaveFrame (r0\<lparr>sf_categories := d\<rparr>))"
    unfolding s1 using r0 by (rule lookup_store_same)
  from dsd_result [OF dsd] r have "(k, r) \<in> set d" by (auto dest: map_of_SomeD)
  then have "r \<in> snd ` set d" by force
  with l1 show ?thesis by (simp add: SaveFrame_getCategories_def)
qed

lemma sfcat_new_name:
  assumes r0: "lookup s c = Some (OSaveFrame r0)" and none: "map_of (sf_categories r0) (lstrip_underscore n) = None"
  shows "\<exists>s1 r1. SaveFrame_setCategory c (PStr n) s = (Inr (PRef (length (heap s))), s1)
           \<and> lookup s1 c = Some (OSaveFrame r1)
           \<and> map_of (sf_categories r1) (lstrip_underscore n) = Some (length (heap s))"
proof -
  let ?m = "lstrip_underscore n"
  let ?new = "length (heap s)"
  let ?r1 = "r0\<lparr>sf_categories := dict_set ?m ?new (sf_categories r0)\<rparr>"
  let ?s0 = "store c (OSaveFrame ?r1) (snd (alloc (OCategory \<lparr>c_items = [], c_recycleBin = [], c_isTable = False, c_id = ?m, c_maxTagLength = 0, c_parent = c\<rparr>) s))"
  have ini: "Category_init ?m c s = (Inr ?new, ?s0)"
    using sfcat_init [OF r0, of ?m] by simp
  from lookup_Some_less [OF r0] have cl: "c < length (heap s)" .
  have op: "SaveFrame_setCategory c (PStr n) s = sf_setCategory_register c (PRef ?new) ?s0"
    using r0 none ini by (simp add: SaveFrame_setCategory_def)
  have l0: "lookup ?s0 c = Some (OSaveFrame ?r1)"
    using cl by (simp add: lookup_store length_heap_alloc)
  have m0: "map_of (sf_categories ?r1) ?m = Some ?new" by (simp add: map_of_dict_set)
  have a0: "attr_id ?s0 (PRef ?new) = Some (?new, ?m)"
    using cl by (simp add: attr_id_def lookup_store length_heap_alloc lookup_alloc obj_id_def)
  from sfcat_register_exact [OF l0 a0 m0] op l0 m0 show ?thesis
    by (intro exI [of _ ?s0] exI [of _ ?r1]) simp
qed

lemma sfcat_live_name:
  assumes r0: "lookup s c = Some (OSaveFrame r0)" and some: "map_of (sf_categories r0) (lstrip_underscore n) = Some x"
    and id: "attr_id s (PRef x) = Some (x, lstrip_underscore n)"
  shows "SaveFrame_setCategory c (PStr n) s = (Inr (PRef x), s)"
proof -
  have "SaveFrame_setCategory c (PStr n) s = sf_setCategory_register c (PRef x) s"
    using r0 some by (simp add: SaveFrame_setCategory_def)
  with sfcat_register_exact [OF r0 id some] show ?thesis by simp
qed

lemma sfcat_same_child_twice:
  assumes r0: "lookup s c = Some (OSaveFrame r0)" and ok: "children_are is_Category s (sf_categories r0)"
  shows "same_child_twice SaveFrame_setCategory SaveFrame_getCategory SaveFrame_getCategoryIds SaveFrame_getCategories (\<lambda>n. lstrip_underscore n) c n s"
proof -
  from sfcat_twice [OF r0 ok, of n] obtain a s1
    where c1: "SaveFrame_setCategory c (PStr n) s = (Inr (PRef a), s1)"
      and c2: "SaveFrame_setCategory c (PStr n) s1 = (Inr (PRef a), s1)" by blast
  from sfcat_first_call [OF r0, of n] c1 obtain a0 s0 r1
    where reg: "sf_setCategory_register c (PRef a0) s0 = (Inr (PRef a), s1)"
      and l0: "lookup s0 c = Some (OSaveFrame r1)" and m0: "map_of (sf_categories r1) (lstrip_underscore n) = Some a0"
    by auto
  from sfcat_register_member [OF reg] have mem: "a \<in> set (SaveFrame_getCategories c s1)" .
  from sfcat_register_preserve [OF reg l0 m0] have live: "SaveFrame_getCategory c n s1 \<noteq> None"
    by (auto simp: SaveFrame_getCategory_def)
  have cases: "(case SaveFrame_getCategory c n s of
                  None \<Rightarrow> SaveFrame_getCategory c n s1 = Some a \<and> \<not> a < length (heap s)
                | Some x \<Rightarrow>
                    attr_id s (PRef x) = Some (x, lstrip_underscore n) \<longrightarrow>
                      a = x \<and> SaveFrame_getCategoryIds c s1 = SaveFrame_getCategoryIds c s \<and> SaveFrame_getCategories c s1 = SaveFrame_getCategories c s)"
  proof (cases "map_of (sf_categories r0) (lstrip_underscore n)")
    case None
    from sfcat_new_name [OF r0 None] c1 obtain r2
      where "a = length (heap s)" "lookup s1 c = Some (OSaveFrame r2)"
        "map_of (sf_categories r2) (lstrip_underscore n) = Some (length (heap s))"
      by auto
    with None r0 show ?thesis by (simp add: SaveFrame_getCategory_def)
  next
    case (Some x)
    show ?thesis
    proof (cases "attr_id s (PRef x) = Some (x, lstrip_underscore n)")
      case True
      from sfcat_live_name [OF r0 Some True] c1 have "a = x" "s1 = s" by simp_all
      with Some r0 show ?thesis by (simp add: SaveFrame_getCategory_def)
    next
      case False
      with Some r0 show ?thesis by (simp add: SaveFrame_getCategory_def)
    qed
  qed
  from c1 c2 mem live cases show ?thesis
    by (simp add: same_child_twice_def)
qed

lemma item_register_exact:
  assumes cat: "lookup s0 c = Some (OCategory cat)" and it: "lookup s0 a = Some (OItem it)"
    and m: "map_of (c_items cat) (i_id it) = Some a"
  shows "\<exists>s1 cat1. setItem_register c (PRef a) s0 = (Inr (PRef a), s1)
           \<and> lookup s1 c = Some (OCategory cat1) \<and> c_items cat1 = c_items cat
           \<and> length (heap s1) = length (heap s0)"
proof -
  define n where "n = length (''_'' @ c_id cat @ i_id it)"
  define cat1 where
    "cat1 = cat\<lparr>c_maxTagLength := (if n > c_maxTagLength cat then n else c_maxTagLength cat)\<rparr>"
  define cat2 where
    "cat2 = (if i_value it \<noteq> PNone \<and> is_list (i_value it) \<and> \<not> c_isTable cat1
             then cat1\<lparr>c_isTable := True\<rparr> else cat1)"
  have items2: "c_items cat2 = c_items cat" by (simp add: cat2_def cat1_def)
  have rd: "(a, c_items cat2) = dict_setdefault (i_id it) a (c_items cat2)"
    using dsd_present [OF m, of a] by (simp add: items2)
  have "setItem_register c (PRef a) s0 = (Inr (PRef a), store c (OCategory cat2) s0)"
    using item_register_unfold [OF cat attr_id_item [OF it] it n_def cat1_def cat2_def rd]
    by simp
  moreover have "lookup (store c (OCategory cat2) s0) c = Some (OCategory cat2)"
    using cat by (rule lookup_store_same)
  ultimately show ?thesis using items2 by (auto simp: length_heap_store)
qed

lemma item_register_member:
  assumes "setItem_register c x s = (Inr (PRef r), s1)"
  shows "r \<in> set (Category_getItems c s1)"
proof -
  from item_register_cases [OF assms] obtain cat a iid it
    where cat: "lookup s c = Some (OCategory cat)" and ai: "attr_id s x = Some (a, iid)"
      and it: "lookup s a = Some (OItem it)"
    by auto
  define n where "n = length (''_'' @ c_id cat @ iid)"
  define cat1 where
    "cat1 = cat\<lparr>c_maxTagLength := (if n > c_maxTagLength cat then n else c_maxTagLength cat)\<rparr>"
  define cat2 where
    "cat2 = (if i_value it \<noteq> PNone \<and> is_list (i_value it) \<and> \<not> c_isTable cat1
             then cat1\<lparr>c_isTable := True\<rparr> else cat1)"
  define rd where "rd = dict_setdefault iid a (c_items cat2)"
  define cat3 where "cat3 = cat2\<lparr>c_items := snd rd\<rparr>"
  from assms item_register_unfold [OF cat ai it n_def cat1_def cat2_def rd_def]
  have r: "r = fst rd" and s1: "s1 = store c (OCategory cat3) s"
    by (simp_all add: cat3_def)
  have l1: "lookup s1 c = Some (OCategory cat3)"
    unfolding s1 using cat by (rule lookup_store_same)
  have "map_of (snd rd) iid = Some (fst rd)"
    using dsd_result [of iid a "c_items cat2" "fst rd" "snd rd"] by (simp add: rd_def)
  then have "(iid, r) \<in> set (snd rd)" using r by (auto dest: map_of_SomeD)
  then have "r \<in> snd ` set (snd rd)" by force
  with l1 show ?thesis by (simp add: Category_getItems_def cat3_def)
qed

lemma item_new_name:
  assumes cat: "lookup s c = Some (OCategory cat)" and none: "map_of (c_items cat) n = None"
  shows "\<exists>s1 cat1. Category_setItem c (PStr n) s = (Inr (PRef (length (heap s))), s1)
           \<and> lookup s1 c = Some (OCategory cat1)
           \<and> map_of (c_items cat1) n = Some (length (heap s))"
proof -
  let ?new = "length (heap s)"
  let ?cat0 = "cat\<lparr>c_items := dict_set n ?new (c_items cat)\<rparr>"
  let ?it = "\<lparr>i_value = PNone, i_type = PStrClass, i_mandatory = False,
              i_isColumn = False, i_id = n, i_name = n,
              i_lineno = PInt (- 1), i_parent = c\<rparr>"
  let ?s0 = "store c (OCategory ?cat0) (snd (alloc (OItem ?it) s))"
  from lookup_Some_less [OF cat] have cl: "c < length (heap s)" .
  have op: "Category_setItem c (PStr n) s = setItem_register c (PRef ?new) ?s0"
    using cat none item_init [OF cat, of n] by (simp add: Category_setItem_def)
  have l0: "lookup ?s0 c = Some (OCategory ?cat0)"
    using cl by (simp add: lookup_store length_heap_alloc)
  have i0: "lookup ?s0 ?new = Some (OItem ?it)"
    using cl by (simp add: lookup_store length_heap_alloc lookup_alloc)
  have m0: "map_of (c_items ?cat0) (i_id ?it) = Some ?new" by (simp add: map_of_dict_set)
  from item_register_exact [OF l0 i0 m0] obtain s1 cat1
    where "setItem_register c (PRef ?new) ?s0 = (Inr (PRef ?new), s1)"
      and "lookup s1 c = Some (OCategory cat1)" and "c_items cat1 = c_items ?cat0"
    by blast
  with op show ?thesis by (auto simp: map_of_dict_set)
qed

lemma item_live_name:
  assumes cat: "lookup s c = Some (OCategory cat)" and some: "map_of (c_items cat) n = Some x"
    and id: "attr_id s (PRef x) = Some (x, n)" and item: "is_Item s x"
  shows "\<exists>s1 cat1. Category_setItem c (PStr n) s = (Inr (PRef x), s1)
           \<and> lookup s1 c = Some (OCategory cat1) \<and> c_items cat1 = c_items cat"
proof -
  from item obtain it where it: "lookup s x = Some (OItem it)"
    by (auto simp: is_Item_def split: option.splits obj.splits)
  with id have "i_id it = n" by (simp add: attr_id_def obj_id_def)
  with some have m: "map_of (c_items cat) (i_id it) = Some x" by simp
  have "Category_setItem c (PStr n) s = setItem_register c (PRef x) s"
    using cat some by (simp add: Category_setItem_def)
  with item_register_exact [OF cat it m] show ?thesis by auto
qed

lemma item_same_child_twice:
  assumes cat: "lookup s c = Some (OCategory cat)" and ok: "children_are is_Item s (c_items cat)"
  shows "same_child_twice Category_setItem Category_getItem Category_getItemNames
           Category_getItems (\<lambda>n. n) c n s"
proof -
  from item_twice [OF cat ok, of n] obtain a s1
    where c1: "Category_setItem c (PStr n) s = (Inr (PRef a), s1)"
      and c2: "Category_setItem c (PStr n) s1 = (Inr (PRef a), s1)" by blast
  from item_first_call [OF cat, of n] c1 obtain a0 s0 cat0
    where reg: "setItem_register c (PRef a0) s0 = (Inr (PRef a), s1)"
      and l0: "lookup s0 c = Some (OCategory cat0)" and m0: "map_of (c_items cat0) n = Some a0"
    by auto
  from item_register_member [OF reg] have mem: "a \<in> set (Category_getItems c s1)" .
  from item_register_preserve [OF reg l0 m0] have live: "Category_getItem c n s1 \<noteq> None"
    by (auto simp: Category_getItem_def)
  have cases: "(case Category_getItem c n s of
                  None \<Rightarrow> Category_getItem c n s1 = Some a \<and> \<not> a < length (heap s)
                | Some x \<Rightarrow>
                    attr_id s (PRef x) = Some (x, n) \<longrightarrow>
                      a = x \<and> Category_getItemNames c s1 = Category_getItemNames c s
                      \<and> Category_getItems c s1 = Category_getItems c s)"
  proof (cases "map_of (c_items cat) n")
    case None
    from item_new_name [OF cat None] c1 obtain cat1
      where "a = length (heap s)" "lookup s1 c = Some (OCategory cat1)"
        "map_of (c_items cat1) n = Some (length (heap s))"
      by auto
    with None cat show ?thesis by (simp add: Category_getItem_def)
  next
    case (Some x)
    from Some have "(n, x) \<in> set (c_items cat)" by (rule map_of_SomeD)
    with ok have item: "is_Item s x" by (auto simp: children_are_def list_all_iff)
    show ?thesis
    proof (cases "attr_id s (PRef x) = Some (x, n)")
      case True
      from item_live_name [OF cat Some True item] c1 obtain cat1
        where "a = x" "lookup s1 c = Some (OCategory cat1)" "c_items cat1 = c_items cat"
        by auto
      with Some cat show ?thesis
        by (simp add: Category_getItem_def Category_getItemNames_def Category_getItems_def)
    next
      case False
      with Some cat show ?thesis by (simp add: Category_getItem_def)
    qed
  qed
  from c1 c2 mem live cases show ?thesis
    by (simp add: same_child_twice_def)
qed

text \<open>
  C3. For every container whose live children are of its child class, and every name:
  calling \<open>setItem\<close>, \<open>setCategory\<close>, \<open>setSaveFrame\<close> or \<open>setDataBlock\<close> twice with
  that name returns the same object both times, a live child of the container (the new
  child registered under the name when the name was not live, the registered child when
  the name was live and the child bears it as id), and the second call changes nothing,
  so the number of live names stays.
\<close>

theorem C3_construct_or_fetch_idempotent:
  "(Category_ok s c \<longrightarrow>
      same_child_twice Category_setItem Category_getItem Category_getItemNames
        Category_getItems (\<lambda>n. n) c n s)
   \<and> (SaveFrame_ok s f \<longrightarrow>
      same_child_twice SaveFrame_setCategory SaveFrame_getCategory SaveFrame_getCategoryIds
        SaveFrame_getCategories lstrip_underscore f n s)
   \<and> (DataBlock_ok s d \<longrightarrow>
      same_child_twice DataBlock_setCategory DataBlock_getCategory DataBlock_getCategoryIds
        DataBlock_getCategories lstrip_underscore d n s)
   \<and> (DataBlock_ok s d \<longrightarrow>
      same_child_twice DataBlock_setSaveFrame DataBlock_getSaveFrame DataBlock_getSaveFrameIds
        DataBlock_getSaveFrames (\<lambda>n. n) d n s)
   \<and> (CifFile_ok s cf \<longrightarrow>
      same_child_twice CifFile_setDataBlock CifFile_getDataBlock CifFile_getDataBlockIds
        CifFile_getDataBlocks (\<lambda>n. n) cf n s)"
proof (intro conjI impI)
  assume "Category_ok s c"
  then obtain cat where "lookup s c = Some (OCategory cat)" "children_are is_Item s (c_items cat)"
    by (auto simp: Category_ok_def split: option.splits obj.splits)
  then show "same_child_twice Category_setItem Category_getItem Category_getItemNames
               Category_getItems (\<lambda>n. n) c n s"
    by (rule item_same_child_twice)
next
  assume "SaveFrame_ok s f"
  then obtain sf where "lookup s f = Some (OSaveFrame sf)"
      "children_are is_Category s (sf_categories sf)"
    by (auto simp: SaveFrame_ok_def split: option.splits obj.splits)
  from sfcat_same_child_twice [OF this, of n]
  show "same_child_twice SaveFrame_setCategory SaveFrame_getCategory SaveFrame_getCategoryIds
          SaveFrame_getCategories lstrip_underscore f n s"
    by (simp add: same_child_twice_def)
next
  assume "DataBlock_ok s d"
  then obtain db where "lookup s d = Some (ODataBlock db)"
      "children_are is_Category s (db_categories db)"
    by (auto simp: DataBlock_ok_def split: option.splits obj.splits)
  from dbcat_same_child_twice [OF this, of n]
  show "same_child_twice DataBlock_setCategory DataBlock_getCategory DataBlock_getCategoryIds
          DataBlock_getCategories lstrip_underscore d n s"
    by (simp add: same_child_twice_def)
next
  assume "DataBlock_ok s d"
  then obtain db where "lookup s d = Some (ODataBlock db)"
      "children_are is_SaveFrame s (db_saveFrames db)"
    by (auto simp: DataBlock_ok_def split: option.splits obj.splits)
  then show "same_child_twice DataBlock_setSaveFrame DataBlock_getSaveFrame
               DataBlock_getSaveFrameIds DataBlock_getSaveFrames (\<lambda>n. n) d n s"
    by (rule dbsf_same_child_twice)
next
  assume "CifFile_ok s cf"
  then obtain r0 where "lookup s cf = Some (OCifFile r0)"
      "children_are is_DataBlock s (f_data_blocks r0)"
    by (auto simp: CifFile_ok_def split: option.splits obj.splits)
  then show "same_child_twice CifFile_setDataBlock CifFile_getDataBlock CifFile_getDataBlockIds
               CifFile_getDataBlocks (\<lambda>n. n) cf n s"
    by (rule file_same_child_twice)
qed

lemma dictionary_state_ok:
  "Category_ok dictionary_state 2" "SaveFrame_ok dictionary_state 4"
  "DataBlock_ok dictionary_state 1" "CifFile_ok dictionary_state 0"
  by code_simp+

lemma dictionary_state_live:
  "Category_getItem 2 ''a'' dictionary_state = Some 3"
  "attr_id dictionary_state (PRef 3) = Some (3, ''a'')"
  "SaveFrame_getCategory 4 ''_k'' dictionary_state = Some 5"
  "attr_id dictionary_state (PRef 5) = Some (5, lstrip_underscore ''_k'')"
  "DataBlock_getCategory 1 ''c'' dictionary_state = Some 2"
  "attr_id dictionary_state (PRef 2) = Some (2, lstrip_underscore ''c'')"
  "DataBlock_getSaveFrame 1 ''S'' dictionary_state = Some 4"
  "attr_id dictionary_state (PRef 4) = Some (4, ''S'')"
  "CifFile_getDataBlock 0 ''D'' dictionary_state = Some 1"
  "attr_id dictionary_state (PRef 1) = Some (1, ''D'')"
  "Category_getItem 2 ''b'' dictionary_state = None"
  "SaveFrame_getCategory 4 ''b'' dictionary_state = None"
  "DataBlock_getCategory 1 ''b'' dictionary_state = None"
  "DataBlock_getSaveFrame 1 ''b'' dictionary_state = None"
  "CifFile_getDataBlock 0 ''b'' dictionary_state = None"
  by code_simp+

text \<open>
  On the small tree with a save frame, for each operation: the name \<open>b\<close>, which is not
  live, and the name of the child that is live under its id.
\<close>

theorem C3_construct_or_fetch_idempotent_witness:
  "Category_ok dictionary_state 2 \<and> SaveFrame_ok dictionary_state 4
   \<and> DataBlock_ok dictionary_state 1 \<and> CifFile_ok dictionary_state 0
   \<and> same_child_twice Category_setItem Category_getItem Category_getItemNames
       Category_getItems (\<lambda>n. n) 2 ''b'' dictionary_state
   \<and> same_child_twice SaveFrame_setCategory SaveFrame_getCategory SaveFrame_getCategoryIds
       SaveFrame_getCategories lstrip_underscore 4 ''b'' dictionary_state
   \<and> same_child_twice DataBlock_setCategory DataBlock_getCategory DataBlock_getCategoryIds
       DataBlock_getCategories lstrip_underscore 1 ''b'' dictionary_state
   \<and> same_child_twice DataBlock_setSaveFrame DataBlock_getSaveFrame DataBlock_getSaveFrameIds
       DataBlock_getSaveFrames (\<lambda>n. n) 1 ''b'' dictionary_state
   \<and> same_child_twice CifFile_setDataBlock CifFile_getDataBlock CifFile_getDataBlockIds
       CifFile_getDataBlocks (\<lambda>n. n) 0 ''b'' dictionary_state
   \<and> Category_getItem 2 ''a'' dictionary_state = Some 3
   \<and> attr_id dictionary_state (PRef 3) = Some (3, ''a'')
   \<and> same_child_twice Category_setItem Category_getItem Category_getItemNames
       Category_getItems (\<lambda>n. n) 2 ''a'' dictionary_state
   \<and> SaveFrame_getCategory 4 ''_k'' dictionary_state = Some 5
   \<and> attr_id dictionary_state (PRef 5) = Some (5, lstrip_underscore ''_k'')
   \<and> same_child_twice SaveFrame_setCategory SaveFrame_getCategory SaveFrame_getCategoryIds
       SaveFrame_getCategories lstrip_underscore 4 ''_k'' dictionary_state
   \<and> DataBlock_getCategory 1 ''c'' dictionary_state = Some 2
   \<and> attr_id dictionary_state (PRef 2) = Some (2, lstrip_underscore ''c'')
   \<and> same_child_twice DataBlock_setCategory DataBlock_getCategory DataBlock_getCategoryIds
       DataBlock_getCategories lstrip_underscore 1 ''c'' dictionary_state
   \<and> DataBlock_getSaveFrame 1 ''S'' dictionary_state = Some 4
   \<and> attr_id dictionary_state (PRef 4) = Some (4, ''S'')
   \<and> same_child_twice DataBlock_setSaveFrame DataBlock_getSaveFrame DataBlock_getSaveFrameIds
       DataBlock_getSaveFrames (\<lambda>n. n) 1 ''S'' dictionary_state
   \<and> CifFile_getDataBlock 0 ''D'' dictionary_state = Some 1
   \<and> attr_id dictionary_state (PRef 1) = Some (1, ''D'')
   \<and> same_child_twice CifFile_setDataBlock CifFile_getDataBlock CifFile_getDataBlockIds
       CifFile_getDataBlocks (\<lambda>n. n) 0 ''D'' dictionary_state"
proof -
  note ok = dictionary_state_ok
  note live = dictionary_state_live
  note new = C3_construct_or_fetch_idempotent [of dictionary_state 2 "''b''" 4 1 0]
  note a = C3_construct_or_fetch_idempotent [of dictionary_state 2 "''a''" 4 1 0]
  note k = C3_construct_or_fetch_idempotent [of dictionary_state 2 "''_k''" 4 1 0]
  note c = C3_construct_or_fetch_idempotent [of dictionary_state 2 "''c''" 4 1 0]
  note S = C3_construct_or_fetch_idempotent [of dictionary_state 2 "''S''" 4 1 0]
  note D = C3_construct_or_fetch_idempotent [of dictionary_state 2 "''D''" 4 1 0]
  from ok new a k c S D show ?thesis
    by (intro conjI) (rule live | blast)+
qed

section \<open>Construct-or-fetch with a new child object\<close>

lemma file_fetch_fresh:
  assumes r0: "lookup s c = Some (OCifFile r0)" and reg: "map_of (f_data_blocks r0) (m) = Some x"
    and init: "DataBlock_init m p s = (Inr y, s0)" and pc: "p \<noteq> c"
  shows "CifFile_setDataBlock c (PRef y) s0 = (Inr (PRef x), s0) \<and> lookup s0 c = Some (OCifFile r0)
         \<and> y = length (heap s)"
proof -
  from lookup_Some_less [OF r0] have cl: "c < length (heap s)" .
  from init have y: "y = length (heap s)"
    by (auto simp: DataBlock_init_def Let_def split_beta fst_alloc split: option.splits obj.splits)
  from init obtain ob where s0: "s0 = store p ob (snd (alloc (ODataBlock \<lparr>db_id = m, db_categories = [], db_saveFrames = [], db_recycleBin = [], db_parent = p\<rparr>) s))"
    by (auto simp: DataBlock_init_def Let_def split_beta fst_alloc split: option.splits obj.splits)
  from init have pl: "p < length (heap s)"
    by (auto simp: DataBlock_init_def Let_def split_beta fst_alloc lookup_alloc
        dest: lookup_Some_less split: option.splits obj.splits if_splits)
  have l0: "lookup s0 c = Some (OCifFile r0)"
    unfolding s0 using pc cl r0 by (simp add: lookup_store_other lookup_alloc)
  have a0: "attr_id s0 (PRef y) = Some (y, m)"
    unfolding s0 y using pl
    by (simp add: attr_id_def lookup_store length_heap_alloc lookup_alloc obj_id_def)
  have "CifFile_setDataBlock c (PRef y) s0 = (Inr (PRef x), store c (OCifFile r0) s0)"
    using l0 a0 dsd_present [OF reg, of y]
    by (simp add: CifFile_setDataBlock_def CifFile_setDataBlock_register_def)
  with store_same [OF l0] l0 y show ?thesis by simp
qed

lemma dbsf_fetch_fresh:
  assumes r0: "lookup s c = Some (ODataBlock r0)" and reg: "map_of (db_saveFrames r0) (m) = Some x"
    and init: "SaveFrame_init m p s = (Inr y, s0)" and pc: "p \<noteq> c"
  shows "DataBlock_setSaveFrame c (PRef y) s0 = (Inr (PRef x), s0) \<and> lookup s0 c = Some (ODataBlock r0)
         \<and> y = length (heap s)"
proof -
  from lookup_Some_less [OF r0] have cl: "c < length (heap s)" .
  from init have y: "y = length (heap s)"
    by (auto simp: SaveFrame_init_def Let_def split_beta fst_alloc split: option.splits obj.splits)
  from init obtain ob where s0: "s0 = store p ob (snd (alloc (OSaveFrame \<lparr>sf_id = m, sf_categories = [], sf_recycleBin = [], sf_parent = p\<rparr>) s))"
    by (auto simp: SaveFrame_init_def Let_def split_beta fst_alloc split: option.splits obj.splits)
  from init have pl: "p < length (heap s)"
    by (auto simp: SaveFrame_init_def Let_def split_beta fst_alloc lookup_alloc
        dest: lookup_Some_less split: option.splits obj.splits if_splits)
  have l0: "lookup s0 c = Some (ODataBlock r0)"
    unfolding s0 using pc cl r0 by (simp add: lookup_store_other lookup_alloc)
  have a0: "attr_id s0 (PRef y) = Some (y, m)"
    unfolding s0 y using pl
    by (simp add: attr_id_def lookup_store length_heap_alloc lookup_alloc obj_id_def)
  have "DataBlock_setSaveFrame c (PRef y) s0 = (Inr (PRef x), store c (ODataBlock r0) s0)"
    using l0 a0 dsd_present [OF reg, of y]
    by (simp add: DataBlock_setSaveFrame_def db_setSaveFrame_register_def)
  with store_same [OF l0] l0 y show ?thesis by simp
qed

lemma dbcat_fetch_fresh:
  assumes r0: "lookup s c = Some (ODataBlock r0)" and reg: "map_of (db_categories r0) (lstrip_underscore m) = Some x"
    and init: "Category_init m p s = (Inr y, s0)" and pc: "p \<noteq> c"
  shows "DataBlock_setCategory c (PRef y) s0 = (Inr (PRef x), s0) \<and> lookup s0 c = Some (ODataBlock r0)
         \<and> y = length (heap s)"
proof -
  from lookup_Some_less [OF r0] have cl: "c < length (heap s)" .
  from init have y: "y = length (heap s)"
    by (auto simp: Category_init_def Let_def split_beta fst_alloc split: option.splits obj.splits)
  from init obtain ob where s0: "s0 = store p ob (snd (alloc (OCategory \<lparr>c_items = [], c_recycleBin = [], c_isTable = False, c_id = lstrip_underscore m, c_maxTagLength = 0, c_parent = p\<rparr>) s))"
    by (auto simp: Category_init_def Let_def split_beta fst_alloc split: option.splits obj.splits)
  from init have pl: "p < length (heap s)"
    by (auto simp: Category_init_def Let_def split_beta fst_alloc lookup_alloc
        dest: lookup_Some_less split: option.splits obj.splits if_splits)
  have l0: "lookup s0 c = Some (ODataBlock r0)"
    unfolding s0 using pc cl r0 by (simp add: lookup_store_other lookup_alloc)
  have a0: "attr_id s0 (PRef y) = Some (y, lstrip_underscore m)"
    unfolding s0 y using pl
    by (simp add: attr_id_def lookup_store length_heap_alloc lookup_alloc obj_id_def)
  have "DataBlock_setCategory c (PRef y) s0 = (Inr (PRef x), store c (ODataBlock r0) s0)"
    using l0 a0 dsd_present [OF reg, of y]
    by (simp add: DataBlock_setCategory_def db_setCategory_register_def)
  with store_same [OF l0] l0 y show ?thesis by simp
qed

lemma sfcat_fetch_fresh:
  assumes r0: "lookup s c = Some (OSaveFrame r0)" and reg: "map_of (sf_categories r0) (lstrip_underscore m) = Some x"
    and init: "Category_init m p s = (Inr y, s0)" and pc: "p \<noteq> c"
  shows "SaveFrame_setCategory c (PRef y) s0 = (Inr (PRef x), s0) \<and> lookup s0 c = Some (OSaveFrame r0)
         \<and> y = length (heap s)"
proof -
  from lookup_Some_less [OF r0] have cl: "c < length (heap s)" .
  from init have y: "y = length (heap s)"
    by (auto simp: Category_init_def Let_def split_beta fst_alloc split: option.splits obj.splits)
  from init obtain ob where s0: "s0 = store p ob (snd (alloc (OCategory \<lparr>c_items = [], c_recycleBin = [], c_isTable = False, c_id = lstrip_underscore m, c_maxTagLength = 0, c_parent = p\<rparr>) s))"
    by (auto simp: Category_init_def Let_def split_beta fst_alloc split: option.splits obj.splits)
  from init have pl: "p < length (heap s)"
    by (auto simp: Category_init_def Let_def split_beta fst_alloc lookup_alloc
        dest: lookup_Some_less split: option.splits obj.splits if_splits)
  have l0: "lookup s0 c = Some (OSaveFrame r0)"
    unfolding s0 using pc cl r0 by (simp add: lookup_store_other lookup_alloc)
  have a0: "attr_id s0 (PRef y) = Some (y, lstrip_underscore m)"
    unfolding s0 y using pl
    by (simp add: attr_id_def lookup_store length_heap_alloc lookup_alloc obj_id_def)
  have "SaveFrame_setCategory c (PRef y) s0 = (Inr (PRef x), store c (OSaveFrame r0) s0)"
    using l0 a0 dsd_present [OF reg, of y]
    by (simp add: SaveFrame_setCategory_def sf_setCategory_register_def)
  with store_same [OF l0] l0 y show ?thesis by simp
qed

lemma item_fetch_fresh:
  assumes cat: "lookup s c = Some (OCategory cat)" and reg: "map_of (c_items cat) m = Some x"
    and init: "Item_init m p s = (Inr y, s0)" and pc: "p \<noteq> c"
  shows "\<exists>s1 cat1. Category_setItem c (PRef y) s0 = (Inr (PRef x), s1)
           \<and> lookup s1 c = Some (OCategory cat1) \<and> c_items cat1 = c_items cat
           \<and> y = length (heap s)"
proof -
  from lookup_Some_less [OF cat] have cl: "c < length (heap s)" .
  let ?it = "\<lparr>i_value = PNone, i_type = PStrClass, i_mandatory = False,
              i_isColumn = False, i_id = m, i_name = m,
              i_lineno = PInt (- 1), i_parent = p\<rparr>"
  from init have y: "y = length (heap s)"
    by (auto simp: Item_init_def Let_def split_beta fst_alloc split: option.splits obj.splits)
  from init obtain ob where s0: "s0 = store p ob (snd (alloc (OItem ?it) s))"
    by (auto simp: Item_init_def Let_def split_beta fst_alloc split: option.splits obj.splits)
  from init have pl: "p < length (heap s)"
    by (auto simp: Item_init_def Let_def split_beta fst_alloc lookup_alloc
        dest: lookup_Some_less split: option.splits obj.splits if_splits)
  have l0: "lookup s0 c = Some (OCategory cat)"
    unfolding s0 using pc cl cat by (simp add: lookup_store_other lookup_alloc)
  have i0: "lookup s0 y = Some (OItem ?it)"
    unfolding s0 y using pl by (simp add: lookup_store length_heap_alloc lookup_alloc)
  define n where "n = length (''_'' @ c_id cat @ m)"
  define cat1 where
    "cat1 = cat\<lparr>c_maxTagLength := (if n > c_maxTagLength cat then n else c_maxTagLength cat)\<rparr>"
  have cat2: "cat1 = (if i_value ?it \<noteq> PNone \<and> is_list (i_value ?it) \<and> \<not> c_isTable cat1
                      then cat1\<lparr>c_isTable := True\<rparr> else cat1)"
    by simp
  have rd: "(x, c_items cat1) = dict_setdefault (i_id ?it) y (c_items cat1)"
    using dsd_present [OF reg, of y] by (simp add: cat1_def)
  have n': "n = length (''_'' @ c_id cat @ i_id ?it)" by (simp add: n_def)
  have "setItem_register c (PRef y) s0 = (Inr (PRef x), store c (OCategory cat1) s0)"
    using item_register_unfold [OF l0 attr_id_item [OF i0] i0 n' cat1_def cat2 rd] by simp
  moreover have "Category_setItem c (PRef y) s0 = setItem_register c (PRef y) s0"
    using l0 by (simp add: Category_setItem_def)
  moreover have "lookup (store c (OCategory cat1) s0) c = Some (OCategory cat1)"
    using l0 by (rule lookup_store_same)
  moreover have "c_items cat1 = c_items cat" by (simp add: cat1_def)
  ultimately show ?thesis using y by auto
qed

lemma children_below:
  assumes "children_are P s d" and "\<And>a. P s a \<Longrightarrow> a < length (heap s)"
  shows "length (heap s) \<notin> set (map snd d)"
proof
  assume "length (heap s) \<in> set (map snd d)"
  then obtain k where "(k, length (heap s)) \<in> set d" by auto
  with assms(1) have "P s (length (heap s))" by (auto simp: children_are_def list_all_iff)
  from assms(2) [OF this] show False by simp
qed

lemma is_Item_below: "is_Item s a \<Longrightarrow> a < length (heap s)"
  by (auto simp: is_Item_def dest: lookup_Some_less split: option.splits)

lemma is_Category_below: "is_Category s a \<Longrightarrow> a < length (heap s)"
  by (auto simp: is_Category_def dest: lookup_Some_less split: option.splits)

lemma is_SaveFrame_below: "is_SaveFrame s a \<Longrightarrow> a < length (heap s)"
  by (auto simp: is_SaveFrame_def dest: lookup_Some_less split: option.splits)

lemma is_DataBlock_below: "is_DataBlock s a \<Longrightarrow> a < length (heap s)"
  by (auto simp: is_DataBlock_def dest: lookup_Some_less split: option.splits)

lemma file_discarded_file:
  assumes r0: "lookup s c = Some (OCifFile r0)" and ok: "children_are is_DataBlock s (f_data_blocks r0)"
    and reg: "map_of (f_data_blocks r0) (m) = Some x"
    and par: "lookup s p = Some (OCifFile q0)" and pc: "p \<noteq> c"
  shows "new_child_discarded DataBlock_init CifFile_setDataBlock CifFile_getDataBlockIds CifFile_getDataBlocks c p m x s"
proof -
  obtain s0 where init: "DataBlock_init m p s = (Inr (length (heap s)), s0)"
    using file_init [OF par, of m] by simp
  from file_fetch_fresh [OF r0 reg init pc]
  have call: "CifFile_setDataBlock c (PRef (length (heap s))) s0 = (Inr (PRef x), s0)"
    and l0: "lookup s0 c = Some (OCifFile r0)" by simp_all
  have "length (heap s) \<notin> set (map snd (f_data_blocks r0))"
    using ok by (rule children_below) (rule is_DataBlock_below)
  with init call l0 r0 show ?thesis
    by (simp add: new_child_discarded_def CifFile_getDataBlockIds_def CifFile_getDataBlocks_def)
qed

lemma dbsf_discarded_db:
  assumes r0: "lookup s c = Some (ODataBlock r0)" and ok: "children_are is_SaveFrame s (db_saveFrames r0)"
    and reg: "map_of (db_saveFrames r0) (m) = Some x"
    and par: "lookup s p = Some (ODataBlock q0)" and pc: "p \<noteq> c"
  shows "new_child_discarded SaveFrame_init DataBlock_setSaveFrame DataBlock_getSaveFrameIds DataBlock_getSaveFrames c p m x s"
proof -
  obtain s0 where init: "SaveFrame_init m p s = (Inr (length (heap s)), s0)"
    using dbsf_init [OF par, of m] by simp
  from dbsf_fetch_fresh [OF r0 reg init pc]
  have call: "DataBlock_setSaveFrame c (PRef (length (heap s))) s0 = (Inr (PRef x), s0)"
    and l0: "lookup s0 c = Some (ODataBlock r0)" by simp_all
  have "length (heap s) \<notin> set (map snd (db_saveFrames r0))"
    using ok by (rule children_below) (rule is_SaveFrame_below)
  with init call l0 r0 show ?thesis
    by (simp add: new_child_discarded_def DataBlock_getSaveFrameIds_def DataBlock_getSaveFrames_def)
qed

lemma dbcat_discarded_db:
  assumes r0: "lookup s c = Some (ODataBlock r0)" and ok: "children_are is_Category s (db_categories r0)"
    and reg: "map_of (db_categories r0) (lstrip_underscore m) = Some x"
    and par: "lookup s p = Some (ODataBlock q0)" and pc: "p \<noteq> c"
  shows "new_child_discarded Category_init DataBlock_setCategory DataBlock_getCategoryIds DataBlock_getCategories c p m x s"
proof -
  obtain s0 where init: "Category_init m p s = (Inr (length (heap s)), s0)"
    using dbcat_init [OF par, of m] by simp
  from dbcat_fetch_fresh [OF r0 reg init pc]
  have call: "DataBlock_setCategory c (PRef (length (heap s))) s0 = (Inr (PRef x), s0)"
    and l0: "lookup s0 c = Some (ODataBlock r0)" by simp_all
  have "length (heap s) \<notin> set (map snd (db_categories r0))"
    using ok by (rule children_below) (rule is_Category_below)
  with init call l0 r0 show ?thesis
    by (simp add: new_child_discarded_def DataBlock_getCategoryIds_def DataBlock_getCategories_def)
qed

lemma dbcat_discarded_sf:
  assumes r0: "lookup s c = Some (ODataBlock r0)" and ok: "children_are is_Category s (db_categories r0)"
    and reg: "map_of (db_categories r0) (lstrip_underscore m) = Some x"
    and par: "lookup s p = Some (OSaveFrame q0)" and pc: "p \<noteq> c"
  shows "new_child_discarded Category_init DataBlock_setCategory DataBlock_getCategoryIds DataBlock_getCategories c p m x s"
proof -
  obtain s0 where init: "Category_init m p s = (Inr (length (heap s)), s0)"
    using sfcat_init [OF par, of m] by simp
  from dbcat_fetch_fresh [OF r0 reg init pc]
  have call: "DataBlock_setCategory c (PRef (length (heap s))) s0 = (Inr (PRef x), s0)"
    and l0: "lookup s0 c = Some (ODataBlock r0)" by simp_all
  have "length (heap s) \<notin> set (map snd (db_categories r0))"
    using ok by (rule children_below) (rule is_Category_below)
  with init call l0 r0 show ?thesis
    by (simp add: new_child_discarded_def DataBlock_getCategoryIds_def DataBlock_getCategories_def)
qed

lemma sfcat_discarded_db:
  assumes r0: "lookup s c = Some (OSaveFrame r0)" and ok: "children_are is_Category s (sf_categories r0)"
    and reg: "map_of (sf_categories r0) (lstrip_underscore m) = Some x"
    and par: "lookup s p = Some (ODataBlock q0)" and pc: "p \<noteq> c"
  shows "new_child_discarded Category_init SaveFrame_setCategory SaveFrame_getCategoryIds SaveFrame_getCategories c p m x s"
proof -
  obtain s0 where init: "Category_init m p s = (Inr (length (heap s)), s0)"
    using dbcat_init [OF par, of m] by simp
  from sfcat_fetch_fresh [OF r0 reg init pc]
  have call: "SaveFrame_setCategory c (PRef (length (heap s))) s0 = (Inr (PRef x), s0)"
    and l0: "lookup s0 c = Some (OSaveFrame r0)" by simp_all
  have "length (heap s) \<notin> set (map snd (sf_categories r0))"
    using ok by (rule children_below) (rule is_Category_below)
  with init call l0 r0 show ?thesis
    by (simp add: new_child_discarded_def SaveFrame_getCategoryIds_def SaveFrame_getCategories_def)
qed

lemma sfcat_discarded_sf:
  assumes r0: "lookup s c = Some (OSaveFrame r0)" and ok: "children_are is_Category s (sf_categories r0)"
    and reg: "map_of (sf_categories r0) (lstrip_underscore m) = Some x"
    and par: "lookup s p = Some (OSaveFrame q0)" and pc: "p \<noteq> c"
  shows "new_child_discarded Category_init SaveFrame_setCategory SaveFrame_getCategoryIds SaveFrame_getCategories c p m x s"
proof -
  obtain s0 where init: "Category_init m p s = (Inr (length (heap s)), s0)"
    using sfcat_init [OF par, of m] by simp
  from sfcat_fetch_fresh [OF r0 reg init pc]
  have call: "SaveFrame_setCategory c (PRef (length (heap s))) s0 = (Inr (PRef x), s0)"
    and l0: "lookup s0 c = Some (OSaveFrame r0)" by simp_all
  have "length (heap s) \<notin> set (map snd (sf_categories r0))"
    using ok by (rule children_below) (rule is_Category_below)
  with init call l0 r0 show ?thesis
    by (simp add: new_child_discarded_def SaveFrame_getCategoryIds_def SaveFrame_getCategories_def)
qed

lemma item_discarded:
  assumes cat: "lookup s c = Some (OCategory cat)" and ok: "children_are is_Item s (c_items cat)"
    and reg: "map_of (c_items cat) m = Some x"
    and par: "lookup s p = Some (OCategory q0)" and pc: "p \<noteq> c"
  shows "new_child_discarded Item_init Category_setItem Category_getItemNames Category_getItems
           c p m x s"
proof -
  obtain s0 where init: "Item_init m p s = (Inr (length (heap s)), s0)"
    using item_init [OF par, of m] by simp
  from item_fetch_fresh [OF cat reg init pc] obtain s1 cat1
    where call: "Category_setItem c (PRef (length (heap s))) s0 = (Inr (PRef x), s1)"
      and l1: "lookup s1 c = Some (OCategory cat1)" and same: "c_items cat1 = c_items cat"
    by blast
  have "length (heap s) \<notin> set (map snd (c_items cat))"
    using ok by (rule children_below) (rule is_Item_below)
  with init call l1 same cat show ?thesis
    by (simp add: new_child_discarded_def Category_getItemNames_def Category_getItems_def)
qed

text \<open>
  C4 (amended). Take a container whose live children are of its child class and that holds
  a child \<open>x\<close> under some id. Construct a new child object bearing that id with a
  different container as its parent (the constructor registers the new object in its
  parent), and pass it to the construct-or-fetch of the first container: the call returns
  \<open>x\<close>, the live names and objects of the container are unchanged, and the new object is
  not among them.
\<close>

theorem C4_new_child_of_other_parent_discarded:
  "(Category_ok s c \<and> Category_getItem c m1 s = Some x1 \<and> is_Category s pc \<and> pc \<noteq> c \<longrightarrow>
      new_child_discarded Item_init Category_setItem Category_getItemNames Category_getItems
        c pc m1 x1 s)
   \<and> (SaveFrame_ok s f \<and> SaveFrame_getCategory f m2 s = Some x2
        \<and> (is_DataBlock s pf \<or> is_SaveFrame s pf) \<and> pf \<noteq> f \<longrightarrow>
      new_child_discarded Category_init SaveFrame_setCategory SaveFrame_getCategoryIds
        SaveFrame_getCategories f pf m2 x2 s)
   \<and> (DataBlock_ok s d \<and> DataBlock_getCategory d m3 s = Some x3
        \<and> (is_DataBlock s pd \<or> is_SaveFrame s pd) \<and> pd \<noteq> d \<longrightarrow>
      new_child_discarded Category_init DataBlock_setCategory DataBlock_getCategoryIds
        DataBlock_getCategories d pd m3 x3 s)
   \<and> (DataBlock_ok s d \<and> DataBlock_getSaveFrame d m4 s = Some x4 \<and> is_DataBlock s pd \<and> pd \<noteq> d \<longrightarrow>
      new_child_discarded SaveFrame_init DataBlock_setSaveFrame DataBlock_getSaveFrameIds
        DataBlock_getSaveFrames d pd m4 x4 s)
   \<and> (CifFile_ok s cf \<and> CifFile_getDataBlock cf m5 s = Some x5 \<and> is_CifFile s pcf \<and> pcf \<noteq> cf \<longrightarrow>
      new_child_discarded DataBlock_init CifFile_setDataBlock CifFile_getDataBlockIds
        CifFile_getDataBlocks cf pcf m5 x5 s)"
proof (intro conjI impI; elim conjE)
  assume "Category_ok s c" "Category_getItem c m1 s = Some x1" "is_Category s pc" "pc \<noteq> c"
  then show "new_child_discarded Item_init Category_setItem Category_getItemNames
               Category_getItems c pc m1 x1 s"
    by (auto simp: Category_ok_def Category_getItem_def is_Category_def
        intro: item_discarded split: option.splits obj.splits)
next
  assume "SaveFrame_ok s f" "SaveFrame_getCategory f m2 s = Some x2"
    "is_DataBlock s pf \<or> is_SaveFrame s pf" "pf \<noteq> f"
  then show "new_child_discarded Category_init SaveFrame_setCategory SaveFrame_getCategoryIds
               SaveFrame_getCategories f pf m2 x2 s"
    by (auto simp: SaveFrame_ok_def SaveFrame_getCategory_def is_DataBlock_def is_SaveFrame_def
        intro: sfcat_discarded_db sfcat_discarded_sf split: option.splits obj.splits)
next
  assume "DataBlock_ok s d" "DataBlock_getCategory d m3 s = Some x3"
    "is_DataBlock s pd \<or> is_SaveFrame s pd" "pd \<noteq> d"
  then show "new_child_discarded Category_init DataBlock_setCategory DataBlock_getCategoryIds
               DataBlock_getCategories d pd m3 x3 s"
    by (auto simp: DataBlock_ok_def DataBlock_getCategory_def is_DataBlock_def is_SaveFrame_def
        intro: dbcat_discarded_db dbcat_discarded_sf split: option.splits obj.splits)
next
  assume "DataBlock_ok s d" "DataBlock_getSaveFrame d m4 s = Some x4" "is_DataBlock s pd" "pd \<noteq> d"
  then show "new_child_discarded SaveFrame_init DataBlock_setSaveFrame DataBlock_getSaveFrameIds
               DataBlock_getSaveFrames d pd m4 x4 s"
    by (auto simp: DataBlock_ok_def DataBlock_getSaveFrame_def is_DataBlock_def
        intro: dbsf_discarded_db split: option.splits obj.splits)
next
  assume "CifFile_ok s cf" "CifFile_getDataBlock cf m5 s = Some x5" "is_CifFile s pcf" "pcf \<noteq> cf"
  then show "new_child_discarded DataBlock_init CifFile_setDataBlock CifFile_getDataBlockIds
               CifFile_getDataBlocks cf pcf m5 x5 s"
    by (auto simp: CifFile_ok_def CifFile_getDataBlock_def is_CifFile_def
        intro: file_discarded_file split: option.splits obj.splits)
qed

lemma two_trees_state_ok:
  "Category_ok two_trees_state 2" "SaveFrame_ok two_trees_state 4"
  "DataBlock_ok two_trees_state 1" "CifFile_ok two_trees_state 0"
  "Category_getItem 2 ''a'' two_trees_state = Some 3" "is_Category two_trees_state 8"
  "SaveFrame_getCategory 4 ''_k'' two_trees_state = Some 5" "is_SaveFrame two_trees_state 9"
  "DataBlock_getCategory 1 ''_c'' two_trees_state = Some 2" "is_DataBlock two_trees_state 7"
  "DataBlock_getSaveFrame 1 ''S'' two_trees_state = Some 4"
  "CifFile_getDataBlock 0 ''D'' two_trees_state = Some 1" "is_CifFile two_trees_state 6"
  by code_simp+

theorem C4_new_child_of_other_parent_discarded_witness:
  "new_child_discarded Item_init Category_setItem Category_getItemNames Category_getItems
     2 8 ''a'' 3 two_trees_state
   \<and> new_child_discarded Category_init SaveFrame_setCategory SaveFrame_getCategoryIds
       SaveFrame_getCategories 4 9 ''_k'' 5 two_trees_state
   \<and> new_child_discarded Category_init DataBlock_setCategory DataBlock_getCategoryIds
       DataBlock_getCategories 1 7 ''_c'' 2 two_trees_state
   \<and> new_child_discarded SaveFrame_init DataBlock_setSaveFrame DataBlock_getSaveFrameIds
       DataBlock_getSaveFrames 1 7 ''S'' 4 two_trees_state
   \<and> new_child_discarded DataBlock_init CifFile_setDataBlock CifFile_getDataBlockIds
       CifFile_getDataBlocks 0 6 ''D'' 1 two_trees_state"
  using C4_new_child_of_other_parent_discarded
          [where s = two_trees_state and c = 2 and ?m1.0 = "''a''" and ?x1.0 = 3 and pc = 8
             and f = 4 and ?m2.0 = "''_k''" and ?x2.0 = 5 and pf = 9
             and d = 1 and ?m3.0 = "''_c''" and ?x3.0 = 2 and pd = 7
             and ?m4.0 = "''S''" and ?x4.0 = 4
             and cf = 0 and ?m5.0 = "''D''" and ?x5.0 = 1 and pcf = 6]
        two_trees_state_ok
  by simp

text \<open>
  C4 as stated fails: a new Item constructed with the container itself as its parent has
  already replaced the registered child when construct-or-fetch is called, so the call
  returns the new object and the previously registered child (object 3) is no longer
  in the live map.
\<close>

theorem C4_new_child_of_same_parent_counterexample:
  "Category_getItem 2 ''a'' tree_state = Some 3
   \<and> fst (Item_init ''a'' 2 tree_state) = Inr 4
   \<and> fst (Category_setItem 2 (PRef 4) (snd (Item_init ''a'' 2 tree_state))) = Inr (PRef 4)
   \<and> Category_getItems 2 (snd (Category_setItem 2 (PRef 4) (snd (Item_init ''a'' 2 tree_state)))) = [4]
   \<and> \<not> new_child_discarded Item_init Category_setItem Category_getItemNames Category_getItems
         2 2 ''a'' 3 tree_state"
  by code_simp

section \<open>Removal: helper lemmas\<close>

lemma map_of_dict_pop: "map_of (dict_pop k d) k' = (if k' = k then None else map_of d k')"
  by (simp add: dict_pop_def delete_conv)

lemma keys_dict_pop: "k \<notin> set (map fst (dict_pop k d))"
  by (simp add: dict_pop_def delete_keys)

lemma dict_has_dict_set: "dict_has (dict_set k v d) k"
  by (simp add: dict_has_def map_of_dict_set)

lemma remove_from_True:
  assumes "remove_from s child live bin = Inr (True, live', bin')"
  shows "\<exists>k x. child_key s child = Some k \<and> map_of live k = Some x
           \<and> live' = dict_pop k live \<and> bin' = dict_set k x bin"
  using assms
  by (auto simp: remove_from_def child_key_def key_of_child_def
      split: option.splits pyval.splits sum.splits)

lemma remove_from_absent:
  assumes "child_key s child = Some k" and "map_of live k = None"
  shows "remove_from s child live bin = Inr (False, live, bin)"
  using assms
  by (auto simp: remove_from_def child_key_def key_of_child_def
      split: option.splits pyval.splits sum.splits)

lemma child_key_store:
  assumes "lookup s c = Some ob" and "obj_id ob' = obj_id ob"
  shows "child_key (store c ob' s) x = child_key s x"
  using attr_id_store [OF assms] by (simp add: child_key_def)

lemma Category_removeChild_moved:
  assumes "Category_removeChild c child s = (Inr True, s1)"
  shows "\<exists>k. child_key s child = Some k \<and> k \<in> set (Category_getItemNames c s)
           \<and> moved_to_bin Category_removeChild Category_getItemNames Category_recycleBin c child k s1"
proof -
  from assms obtain r0 where r0: "lookup s c = Some (OCategory r0)"
    by (auto simp: Category_removeChild_def split: option.splits obj.splits)
  from assms r0 obtain live' bin'
    where rf: "remove_from s child (c_items r0) (c_recycleBin r0) = Inr (True, live', bin')"
      and s1: "s1 = store c (OCategory (r0\<lparr>c_items := live', c_recycleBin := bin'\<rparr>)) s"
    by (auto simp: Category_removeChild_def split: sum.splits)
  from remove_from_True [OF rf] obtain k x
    where k: "child_key s child = Some k" and x: "map_of (c_items r0) k = Some x"
      and live': "live' = dict_pop k (c_items r0)" and bin': "bin' = dict_set k x (c_recycleBin r0)"
    by blast
  let ?r1 = "r0\<lparr>c_items := live', c_recycleBin := bin'\<rparr>"
  have l1: "lookup s1 c = Some (OCategory ?r1)"
    unfolding s1 using r0 by (rule lookup_store_same)
  have k1: "child_key s1 child = Some k"
    unfolding s1 using child_key_store [OF r0, of "OCategory ?r1" child] k
    by (simp add: obj_id_def)
  have "remove_from s1 child live' bin' = Inr (False, live', bin')"
    using k1 by (rule remove_from_absent) (simp add: live' map_of_dict_pop)
  then have again: "Category_removeChild c child s1 = (Inr False, s1)"
    using l1 store_same [OF l1] by (simp add: Category_removeChild_def)
  have "k \<in> set (Category_getItemNames c s)"
    using r0 map_of_SomeD [OF x] by (force simp: Category_getItemNames_def)
  moreover have "k \<notin> set (Category_getItemNames c s1)"
    using l1 keys_dict_pop [of k "c_items r0"] by (simp add: Category_getItemNames_def live')
  moreover have "dict_has (Category_recycleBin c s1) k"
    using l1 by (simp add: Category_recycleBin_def bin' dict_has_dict_set)
  ultimately show ?thesis using k again by (simp add: moved_to_bin_def)
qed

lemma SaveFrame_removeChild_moved:
  assumes "SaveFrame_removeChild c child s = (Inr True, s1)"
  shows "\<exists>k. child_key s child = Some k \<and> k \<in> set (SaveFrame_getCategoryIds c s)
           \<and> moved_to_bin SaveFrame_removeChild SaveFrame_getCategoryIds SaveFrame_recycleBin c child k s1"
proof -
  from assms obtain r0 where r0: "lookup s c = Some (OSaveFrame r0)"
    by (auto simp: SaveFrame_removeChild_def split: option.splits obj.splits)
  from assms r0 obtain live' bin'
    where rf: "remove_from s child (sf_categories r0) (sf_recycleBin r0) = Inr (True, live', bin')"
      and s1: "s1 = store c (OSaveFrame (r0\<lparr>sf_categories := live', sf_recycleBin := bin'\<rparr>)) s"
    by (auto simp: SaveFrame_removeChild_def split: sum.splits)
  from remove_from_True [OF rf] obtain k x
    where k: "child_key s child = Some k" and x: "map_of (sf_categories r0) k = Some x"
      and live': "live' = dict_pop k (sf_categories r0)" and bin': "bin' = dict_set k x (sf_recycleBin r0)"
    by blast
  let ?r1 = "r0\<lparr>sf_categories := live', sf_recycleBin := bin'\<rparr>"
  have l1: "lookup s1 c = Some (OSaveFrame ?r1)"
    unfolding s1 using r0 by (rule lookup_store_same)
  have k1: "child_key s1 child = Some k"
    unfolding s1 using child_key_store [OF r0, of "OSaveFrame ?r1" child] k
    by (simp add: obj_id_def)
  have "remove_from s1 child live' bin' = Inr (False, live', bin')"
    using k1 by (rule remove_from_absent) (simp add: live' map_of_dict_pop)
  then have again: "SaveFrame_removeChild c child s1 = (Inr False, s1)"
    using l1 store_same [OF l1] by (simp add: SaveFrame_removeChild_def)
  have "k \<in> set (SaveFrame_getCategoryIds c s)"
    using r0 map_of_SomeD [OF x] by (force simp: SaveFrame_getCategoryIds_def)
  moreover have "k \<notin> set (SaveFrame_getCategoryIds c s1)"
    using l1 keys_dict_pop [of k "sf_categories r0"] by (simp add: SaveFrame_getCategoryIds_def live')
  moreover have "dict_has (SaveFrame_recycleBin c s1) k"
    using l1 by (simp add: SaveFrame_recycleBin_def bin' dict_has_dict_set)
  ultimately show ?thesis using k again by (simp add: moved_to_bin_def)
qed

lemma CifFile_removeChild_moved:
  assumes "CifFile_removeChild c child s = (Inr True, s1)"
  shows "\<exists>k. child_key s child = Some k \<and> k \<in> set (CifFile_getDataBlockIds c s)
           \<and> moved_to_bin CifFile_removeChild CifFile_getDataBlockIds CifFile_recycleBin c child k s1"
proof -
  from assms obtain r0 where r0: "lookup s c = Some (OCifFile r0)"
    by (auto simp: CifFile_removeChild_def split: option.splits obj.splits)
  from assms r0 obtain live' bin'
    where rf: "remove_from s child (f_data_blocks r0) (f_recycleBin r0) = Inr (True, live', bin')"
      and s1: "s1 = store c (OCifFile (r0\<lparr>f_data_blocks := live', f_recycleBin := bin'\<rparr>)) s"
    by (auto simp: CifFile_removeChild_def split: sum.splits)
  from remove_from_True [OF rf] obtain k x
    where k: "child_key s child = Some k" and x: "map_of (f_data_blocks r0) k = Some x"
      and live': "live' = dict_pop k (f_data_blocks r0)" and bin': "bin' = dict_set k x (f_recycleBin r0)"
    by blast
  let ?r1 = "r0\<lparr>f_data_blocks := live', f_recycleBin := bin'\<rparr>"
  have l1: "lookup s1 c = Some (OCifFile ?r1)"
    unfolding s1 using r0 by (rule lookup_store_same)
  have k1: "child_key s1 child = Some k"
    unfolding s1 using child_key_store [OF r0, of "OCifFile ?r1" child] k
    by (simp add: obj_id_def)
  have "remove_from s1 child live' bin' = Inr (False, live', bin')"
    using k1 by (rule remove_from_absent) (simp add: live' map_of_dict_pop)
  then have again: "CifFile_removeChild c child s1 = (Inr False, s1)"
    using l1 store_same [OF l1] by (simp add: CifFile_removeChild_def)
  have "k \<in> set (CifFile_getDataBlockIds c s)"
    using r0 map_of_SomeD [OF x] by (force simp: CifFile_getDataBlockIds_def)
  moreover have "k \<notin> set (CifFile_getDataBlockIds c s1)"
    using l1 keys_dict_pop [of k "f_data_blocks r0"] by (simp add: CifFile_getDataBlockIds_def live')
  moreover have "dict_has (CifFile_recycleBin c s1) k"
    using l1 by (simp add: CifFile_recycleBin_def bin' dict_has_dict_set)
  ultimately show ?thesis using k again by (simp add: moved_to_bin_def)
qed

subsection \<open>DataBlock.removeChild\<close>

lemma lookup_print [simp]: "lookup (print e s) a = lookup s a"
  by (simp add: lookup_def print_def)

lemma store_print: "store a ob (print e s) = print e (store a ob s)"
  by (simp add: store_def print_def)

lemma as_Category_store_db:
  assumes "lookup s d = Some (ODataBlock db)"
  shows "as_Category (store d (ODataBlock db') s) child = as_Category s child"
  using assms
  by (cases child) (auto simp: as_Category_def lookup_store dest: lookup_Some_less
      split: option.splits obj.splits)

lemma as_SaveFrame_store_db:
  assumes "lookup s d = Some (ODataBlock db)"
  shows "as_SaveFrame (store d (ODataBlock db') s) child = as_SaveFrame s child"
  using assms
  by (cases child) (auto simp: as_SaveFrame_def lookup_store dest: lookup_Some_less
      split: option.splits obj.splits)

lemma as_Category_print [simp]: "as_Category (print e s) child = as_Category s child"
  by (cases child) (simp_all add: as_Category_def)

lemma as_SaveFrame_print [simp]: "as_SaveFrame (print e s) child = as_SaveFrame s child"
  by (cases child) (simp_all add: as_SaveFrame_def)

lemma as_Category_str [simp]: "as_Category s (PStr n) = None"
  by (simp add: as_Category_def)

lemma as_SaveFrame_str [simp]: "as_SaveFrame s (PStr n) = None"
  by (simp add: as_SaveFrame_def)

lemma as_Category_not_SaveFrame: "as_Category s child = Some k \<Longrightarrow> as_SaveFrame s child = None"
  by (auto simp: as_Category_def as_SaveFrame_def split: pyval.splits option.splits obj.splits)

text \<open>The four ways through \<open>DataBlock.removeChild\<close>.\<close>

lemma db_remove_Category_object:
  assumes "lookup s d = Some (ODataBlock db)" and "as_Category s child = Some k"
    and "map_of (db_categories db) k = Some x"
  shows "DataBlock_removeChild d child s =
           (Inr True, store d (ODataBlock (db\<lparr>db_categories := dict_pop k (db_categories db),
                                               db_recycleBin := dict_set k x (db_recycleBin db)\<rparr>)) s)"
  using assms by (simp add: DataBlock_removeChild_def)

lemma db_remove_SaveFrame_object:
  assumes "lookup s d = Some (ODataBlock db)" and "as_SaveFrame s child = Some k"
    and "map_of (db_saveFrames db) k = Some x"
  shows "DataBlock_removeChild d child s =
           (Inr True, store d (ODataBlock (db\<lparr>db_saveFrames := dict_pop k (db_saveFrames db),
                                               db_recycleBin := dict_set k x (db_recycleBin db)\<rparr>)) s)"
proof -
  from assms(2) have "as_Category s child = None"
    by (auto simp: as_Category_def as_SaveFrame_def split: pyval.splits option.splits obj.splits)
  with assms show ?thesis by (simp add: DataBlock_removeChild_def)
qed

lemma db_remove_category_name:
  assumes "lookup s d = Some (ODataBlock db)"
    and "map_of (db_categories db) (lstrip_underscore n) = Some x"
  shows "DataBlock_removeChild d (PStr n) s =
           (Inr True,
            print (LogStr (''Warning: '' @ [sq] @ n @ [sq] @ '' removed from categories''))
              (store d (ODataBlock (db\<lparr>db_categories := dict_pop (lstrip_underscore n) (db_categories db),
                                        db_recycleBin := dict_set (lstrip_underscore n) x
                                                           (db_recycleBin db)\<rparr>)) s))"
  using assms
  by (simp add: DataBlock_removeChild_def db_remove_by_name_def dict_has_def Let_def)

lemma db_remove_saveFrame_name:
  assumes "lookup s d = Some (ODataBlock db)"
    and "map_of (db_categories db) (lstrip_underscore n) = None"
    and "map_of (db_saveFrames db) n = Some y"
  shows "DataBlock_removeChild d (PStr n) s =
           (Inr True,
            print (LogStr (''Warning: '' @ [sq] @ n @ [sq] @ '' removed from saveFrames''))
              (store d (ODataBlock (db\<lparr>db_saveFrames := dict_pop n (db_saveFrames db),
                                        db_recycleBin := dict_set n y (db_recycleBin db)\<rparr>)) s))"
  using assms
  by (simp add: DataBlock_removeChild_def db_remove_by_name_def dict_has_def Let_def)

lemma db_remove_nothing:
  assumes "lookup s d = Some (ODataBlock db)"
    and "\<And>k. as_Category s child = Some k \<Longrightarrow> map_of (db_categories db) k = None"
    and "\<And>k. as_SaveFrame s child = Some k \<Longrightarrow> map_of (db_saveFrames db) k = None"
    and "\<And>n. child = PStr n \<Longrightarrow> map_of (db_categories db) (lstrip_underscore n) = None
                                  \<and> map_of (db_saveFrames db) n = None"
  shows "DataBlock_removeChild d child s = (Inr False, s)"
proof -
  have a: "(case as_Category s child of
              Some k \<Rightarrow> (case map_of (db_categories db) k of Some x \<Rightarrow> Some (k, x) | None \<Rightarrow> None)
            | None \<Rightarrow> None) = None"
    using assms(2) by (auto split: option.splits)
  have b: "(case as_SaveFrame s child of
              Some k \<Rightarrow> (case map_of (db_saveFrames db) k of Some x \<Rightarrow> Some (k, x) | None \<Rightarrow> None)
            | None \<Rightarrow> None) = None"
    using assms(3) by (auto split: option.splits)
  have "DataBlock_removeChild d child s =
          (case child of
             PStr n \<Rightarrow>
               if dict_has (db_categories db) (lstrip_underscore n) \<or> dict_has (db_saveFrames db) n
               then db_remove_by_name d db n s else (Inr False, s)
           | _ \<Rightarrow> (Inr False, s))"
    using assms(1) by (simp add: DataBlock_removeChild_def a b)
  then show ?thesis
    using assms(4) by (cases child) (simp_all add: dict_has_def)
qed

lemma db_remove_cases:
  assumes db: "lookup s d = Some (ODataBlock db)"
    and rm: "DataBlock_removeChild d child s = (Inr True, s1)"
  obtains (cat_obj) k x where "as_Category s child = Some k" "map_of (db_categories db) k = Some x"
  | (sf_obj) k x where "as_SaveFrame s child = Some k" "map_of (db_saveFrames db) k = Some x"
  | (cat_name) n x where "child = PStr n" "map_of (db_categories db) (lstrip_underscore n) = Some x"
  | (sf_name) n y where "child = PStr n" "map_of (db_categories db) (lstrip_underscore n) = None"
      "map_of (db_saveFrames db) n = Some y"
proof -
  have "\<not> ((\<forall>k. as_Category s child = Some k \<longrightarrow> map_of (db_categories db) k = None)
          \<and> (\<forall>k. as_SaveFrame s child = Some k \<longrightarrow> map_of (db_saveFrames db) k = None)
          \<and> (\<forall>n. child = PStr n \<longrightarrow> map_of (db_categories db) (lstrip_underscore n) = None
                                  \<and> map_of (db_saveFrames db) n = None))"
  proof
    assume h: "(\<forall>k. as_Category s child = Some k \<longrightarrow> map_of (db_categories db) k = None)
          \<and> (\<forall>k. as_SaveFrame s child = Some k \<longrightarrow> map_of (db_saveFrames db) k = None)
          \<and> (\<forall>n. child = PStr n \<longrightarrow> map_of (db_categories db) (lstrip_underscore n) = None
                                  \<and> map_of (db_saveFrames db) n = None)"
    have "DataBlock_removeChild d child s = (Inr False, s)"
      by (rule db_remove_nothing [OF db]) (use h in auto)
    with rm show False by simp
  qed
  then show thesis
    using cat_obj sf_obj cat_name sf_name by (cases "map_of (db_categories db) (lstrip_underscore (case child of PStr n \<Rightarrow> n | _ \<Rightarrow> []))") auto
qed

lemma DataBlock_removeChild_moved:
  assumes rm: "DataBlock_removeChild d child s = (Inr True, s1)"
    and single: "\<not> names_category_and_saveFrame d child s"
  shows "\<exists>k ids. db_child_key d child s = Some (k, ids) \<and> k \<in> set (ids d s)
           \<and> moved_to_bin DataBlock_removeChild ids DataBlock_recycleBin d child k s1"
proof -
  from rm obtain db where db: "lookup s d = Some (ODataBlock db)"
    by (auto simp: DataBlock_removeChild_def split: option.splits obj.splits)
  from db rm show ?thesis
  proof (cases rule: db_remove_cases)
    case (cat_obj k x)
    let ?db1 = "db\<lparr>db_categories := dict_pop k (db_categories db),
                   db_recycleBin := dict_set k x (db_recycleBin db)\<rparr>"
    from rm db_remove_Category_object [OF db cat_obj]
    have s1: "s1 = store d (ODataBlock ?db1) s" by simp
    have l1: "lookup s1 d = Some (ODataBlock ?db1)"
      unfolding s1 using db by (rule lookup_store_same)
    have c1: "as_Category s1 child = Some k"
      unfolding s1 using cat_obj(1) by (simp add: as_Category_store_db [OF db])
    have f1: "as_SaveFrame s1 child = None"
      using c1 by (rule as_Category_not_SaveFrame)
    have again: "DataBlock_removeChild d child s1 = (Inr False, s1)"
      by (rule db_remove_nothing [OF l1]) (use c1 f1 in \<open>auto simp: map_of_dict_pop\<close>)
    have "db_child_key d child s = Some (k, DataBlock_getCategoryIds)"
      using cat_obj(1) by (simp add: db_child_key_def)
    moreover have "k \<in> set (DataBlock_getCategoryIds d s)"
      using db map_of_SomeD [OF cat_obj(2)] by (force simp: DataBlock_getCategoryIds_def)
    moreover have "k \<notin> set (DataBlock_getCategoryIds d s1)"
      using l1 keys_dict_pop [of k "db_categories db"] by (simp add: DataBlock_getCategoryIds_def)
    moreover have "dict_has (DataBlock_recycleBin d s1) k"
      using l1 by (simp add: DataBlock_recycleBin_def dict_has_dict_set)
    ultimately show ?thesis using again by (simp add: moved_to_bin_def)
  next
    case (sf_obj k x)
    let ?db1 = "db\<lparr>db_saveFrames := dict_pop k (db_saveFrames db),
                   db_recycleBin := dict_set k x (db_recycleBin db)\<rparr>"
    from rm db_remove_SaveFrame_object [OF db sf_obj]
    have s1: "s1 = store d (ODataBlock ?db1) s" by simp
    have l1: "lookup s1 d = Some (ODataBlock ?db1)"
      unfolding s1 using db by (rule lookup_store_same)
    have f1: "as_SaveFrame s1 child = Some k"
      unfolding s1 using sf_obj(1) by (simp add: as_SaveFrame_store_db [OF db])
    have c0: "as_Category s child = None"
      using sf_obj(1)
      by (auto simp: as_Category_def as_SaveFrame_def split: pyval.splits option.splits obj.splits)
    have c1: "as_Category s1 child = None"
      unfolding s1 using c0 by (simp add: as_Category_store_db [OF db])
    have again: "DataBlock_removeChild d child s1 = (Inr False, s1)"
      by (rule db_remove_nothing [OF l1]) (use c1 f1 in \<open>auto simp: map_of_dict_pop\<close>)
    have "db_child_key d child s = Some (k, DataBlock_getSaveFrameIds)"
      using sf_obj(1) c0 by (simp add: db_child_key_def)
    moreover have "k \<in> set (DataBlock_getSaveFrameIds d s)"
      using db map_of_SomeD [OF sf_obj(2)] by (force simp: DataBlock_getSaveFrameIds_def)
    moreover have "k \<notin> set (DataBlock_getSaveFrameIds d s1)"
      using l1 keys_dict_pop [of k "db_saveFrames db"] by (simp add: DataBlock_getSaveFrameIds_def)
    moreover have "dict_has (DataBlock_recycleBin d s1) k"
      using l1 by (simp add: DataBlock_recycleBin_def dict_has_dict_set)
    ultimately show ?thesis using again by (simp add: moved_to_bin_def)
  next
    case (cat_name n x)
    let ?k = "lstrip_underscore n"
    let ?db1 = "db\<lparr>db_categories := dict_pop ?k (db_categories db),
                   db_recycleBin := dict_set ?k x (db_recycleBin db)\<rparr>"
    let ?msg = "LogStr (''Warning: '' @ [sq] @ n @ [sq] @ '' removed from categories'')"
    from rm db_remove_category_name [OF db cat_name(2)] cat_name(1)
    have s1: "s1 = print ?msg (store d (ODataBlock ?db1) s)" by simp
    have l1: "lookup s1 d = Some (ODataBlock ?db1)"
      unfolding s1 using lookup_store_same [OF db] by simp
    from single cat_name db have nosf: "map_of (db_saveFrames db) n = None"
      by (simp add: names_category_and_saveFrame_def DataBlock_getCategory_def
          DataBlock_getSaveFrame_def)
    have again: "DataBlock_removeChild d child s1 = (Inr False, s1)"
      by (rule db_remove_nothing [OF l1]) (use cat_name(1) nosf in \<open>auto simp: map_of_dict_pop\<close>)
    have "db_child_key d child s = Some (?k, DataBlock_getCategoryIds)"
      using cat_name db by (simp add: db_child_key_def DataBlock_getCategory_def)
    moreover have "?k \<in> set (DataBlock_getCategoryIds d s)"
      using db map_of_SomeD [OF cat_name(2)] by (force simp: DataBlock_getCategoryIds_def)
    moreover have "?k \<notin> set (DataBlock_getCategoryIds d s1)"
      using l1 keys_dict_pop [of ?k "db_categories db"] by (simp add: DataBlock_getCategoryIds_def)
    moreover have "dict_has (DataBlock_recycleBin d s1) ?k"
      using l1 by (simp add: DataBlock_recycleBin_def dict_has_dict_set)
    ultimately show ?thesis using again by (simp add: moved_to_bin_def)
  next
    case (sf_name n y)
    let ?db1 = "db\<lparr>db_saveFrames := dict_pop n (db_saveFrames db),
                   db_recycleBin := dict_set n y (db_recycleBin db)\<rparr>"
    let ?msg = "LogStr (''Warning: '' @ [sq] @ n @ [sq] @ '' removed from saveFrames'')"
    from rm db_remove_saveFrame_name [OF db sf_name(2,3)] sf_name(1)
    have s1: "s1 = print ?msg (store d (ODataBlock ?db1) s)" by simp
    have l1: "lookup s1 d = Some (ODataBlock ?db1)"
      unfolding s1 using lookup_store_same [OF db] by simp
    have again: "DataBlock_removeChild d child s1 = (Inr False, s1)"
      by (rule db_remove_nothing [OF l1]) (use sf_name in \<open>auto simp: map_of_dict_pop\<close>)
    have "db_child_key d child s = Some (n, DataBlock_getSaveFrameIds)"
      using sf_name db by (simp add: db_child_key_def DataBlock_getCategory_def)
    moreover have "n \<in> set (DataBlock_getSaveFrameIds d s)"
      using db map_of_SomeD [OF sf_name(3)] by (force simp: DataBlock_getSaveFrameIds_def)
    moreover have "n \<notin> set (DataBlock_getSaveFrameIds d s1)"
      using l1 keys_dict_pop [of n "db_saveFrames db"] by (simp add: DataBlock_getSaveFrameIds_def)
    moreover have "dict_has (DataBlock_recycleBin d s1) n"
      using l1 by (simp add: DataBlock_recycleBin_def dict_has_dict_set)
    ultimately show ?thesis using again by (simp add: moved_to_bin_def)
  qed
qed

section \<open>Removal\<close>

text \<open>
  What a \<open>removeChild\<close> call that returned true has done, for Category, SaveFrame and
  CifFile, and for DataBlock when the child is not a name that is both a live category
  (after stripping leading underscores) and a live save frame: the key of the child was
  a live name before, is no longer one, is in the recycle bin, and the same call again
  returns false without raising.
\<close>

lemma removal_moves_key_to_bin:
  "(Category_removeChild c child1 s = (Inr True, s1) \<longrightarrow>
      (\<exists>k. child_key s child1 = Some k \<and> k \<in> set (Category_getItemNames c s)
         \<and> moved_to_bin Category_removeChild Category_getItemNames Category_recycleBin
              c child1 k s1))
   \<and> (SaveFrame_removeChild f child2 s = (Inr True, s2) \<longrightarrow>
      (\<exists>k. child_key s child2 = Some k \<and> k \<in> set (SaveFrame_getCategoryIds f s)
         \<and> moved_to_bin SaveFrame_removeChild SaveFrame_getCategoryIds SaveFrame_recycleBin
              f child2 k s2))
   \<and> (CifFile_removeChild cf child3 s = (Inr True, s3) \<longrightarrow>
      (\<exists>k. child_key s child3 = Some k \<and> k \<in> set (CifFile_getDataBlockIds cf s)
         \<and> moved_to_bin CifFile_removeChild CifFile_getDataBlockIds CifFile_recycleBin
              cf child3 k s3))
   \<and> (DataBlock_removeChild d child4 s = (Inr True, s4)
        \<and> \<not> names_category_and_saveFrame d child4 s \<longrightarrow>
      (\<exists>k ids. db_child_key d child4 s = Some (k, ids) \<and> k \<in> set (ids d s)
         \<and> moved_to_bin DataBlock_removeChild ids DataBlock_recycleBin d child4 k s4))"
  using Category_removeChild_moved [of c child1 s s1]
    SaveFrame_removeChild_moved [of f child2 s s2]
    CifFile_removeChild_moved [of cf child3 s s3]
    DataBlock_removeChild_moved [of d child4 s s4]
  by blast

text \<open>
  C5 (the code at the failing input). On a DataBlock that has the category \<open>a\<close> and
  the save frame \<open>a\<close>, \<open>removeChild("a")\<close> returns true and moves the category only;
  the same call again returns true too, and only now moves the save frame. A third call
  returns false.
\<close>

theorem C5_second_removal_returns_true:
  "DataBlock_getCategoryIds 1 same_name_state = [''c'', ''a'']
   \<and> DataBlock_getSaveFrameIds 1 same_name_state = [''a'']
   \<and> fst (DataBlock_removeChild 1 (PStr ''a'') same_name_state) = Inr True
   \<and> DataBlock_getSaveFrameIds 1 (snd (DataBlock_removeChild 1 (PStr ''a'') same_name_state))
       = [''a'']
   \<and> fst (DataBlock_removeChild 1 (PStr ''a'')
            (snd (DataBlock_removeChild 1 (PStr ''a'') same_name_state))) = Inr True
   \<and> DataBlock_getSaveFrameIds 1
         (snd (DataBlock_removeChild 1 (PStr ''a'')
            (snd (DataBlock_removeChild 1 (PStr ''a'') same_name_state)))) = []
   \<and> fst (DataBlock_removeChild 1 (PStr ''a'')
            (snd (DataBlock_removeChild 1 (PStr ''a'')
               (snd (DataBlock_removeChild 1 (PStr ''a'') same_name_state))))) = Inr False"
  by code_simp

text \<open>
  C10. When \<open>DataBlock.removeChild\<close> is called with a string that, stripped of leading
  underscores, is a live category and, as it is, a live save frame: the call returns
  true, the category is no longer live and is in the recycle bin under the stripped
  name, no other key of the recycle bin changes, and the save frames are exactly what
  they were, the one of that name still live.
\<close>

theorem C10_category_removed_saveFrame_kept:
  assumes "DataBlock_getCategory d n s = Some x" and "DataBlock_getSaveFrame d n s = Some y"
  shows "\<exists>s1. DataBlock_removeChild d (PStr n) s = (Inr True, s1)
            \<and> lstrip_underscore n \<notin> set (DataBlock_getCategoryIds d s1)
            \<and> map_of (DataBlock_recycleBin d s1) (lstrip_underscore n) = Some x
            \<and> (\<forall>k. k \<noteq> lstrip_underscore n \<longrightarrow>
                  map_of (DataBlock_recycleBin d s1) k = map_of (DataBlock_recycleBin d s) k)
            \<and> DataBlock_getSaveFrame d n s1 = Some y
            \<and> DataBlock_getSaveFrameIds d s1 = DataBlock_getSaveFrameIds d s
            \<and> DataBlock_getSaveFrames d s1 = DataBlock_getSaveFrames d s"
proof -
  from assms(1) obtain db where db: "lookup s d = Some (ODataBlock db)"
    and x: "map_of (db_categories db) (lstrip_underscore n) = Some x"
    by (auto simp: DataBlock_getCategory_def split: option.splits obj.splits)
  from assms(2) db have y: "map_of (db_saveFrames db) n = Some y"
    by (simp add: DataBlock_getSaveFrame_def)
  let ?k = "lstrip_underscore n"
  let ?db1 = "db\<lparr>db_categories := dict_pop ?k (db_categories db),
                 db_recycleBin := dict_set ?k x (db_recycleBin db)\<rparr>"
  let ?s1 = "print (LogStr (''Warning: '' @ [sq] @ n @ [sq] @ '' removed from categories''))
               (store d (ODataBlock ?db1) s)"
  have rm: "DataBlock_removeChild d (PStr n) s = (Inr True, ?s1)"
    by (rule db_remove_category_name [OF db x])
  have l1: "lookup ?s1 d = Some (ODataBlock ?db1)"
    using lookup_store_same [OF db] by simp
  have "?k \<notin> set (DataBlock_getCategoryIds d ?s1)"
    using l1 keys_dict_pop [of ?k "db_categories db"] by (simp add: DataBlock_getCategoryIds_def)
  moreover have "map_of (DataBlock_recycleBin d ?s1) ?k = Some x"
    using l1 by (simp add: DataBlock_recycleBin_def map_of_dict_set)
  moreover have "\<forall>k. k \<noteq> ?k \<longrightarrow>
                   map_of (DataBlock_recycleBin d ?s1) k = map_of (DataBlock_recycleBin d s) k"
    using l1 db by (simp add: DataBlock_recycleBin_def map_of_dict_set)
  moreover have "DataBlock_getSaveFrame d n ?s1 = Some y"
    using l1 y by (simp add: DataBlock_getSaveFrame_def)
  moreover have "DataBlock_getSaveFrameIds d ?s1 = DataBlock_getSaveFrameIds d s"
    using l1 db by (simp add: DataBlock_getSaveFrameIds_def)
  moreover have "DataBlock_getSaveFrames d ?s1 = DataBlock_getSaveFrames d s"
    using l1 db by (simp add: DataBlock_getSaveFrames_def)
  ultimately show ?thesis using rm by blast
qed

lemma same_name_state_children:
  "DataBlock_getCategory 1 ''_a'' same_name_state = Some 4"
  "DataBlock_getSaveFrame 1 ''a'' same_name_state = Some 5"
  "DataBlock_getCategory 1 ''a'' same_name_state = Some 4"
  by code_simp+

theorem C10_category_removed_saveFrame_kept_witness:
  "\<exists>s1. DataBlock_removeChild 1 (PStr ''a'') same_name_state = (Inr True, s1)
       \<and> ''a'' \<notin> set (DataBlock_getCategoryIds 1 s1)
       \<and> map_of (DataBlock_recycleBin 1 s1) ''a'' = Some 4
       \<and> DataBlock_getSaveFrame 1 ''a'' s1 = Some 5
       \<and> DataBlock_getSaveFrameIds 1 s1 = DataBlock_getSaveFrameIds 1 same_name_state"
  using C10_category_removed_saveFrame_kept [of 1 "''a''" same_name_state 4 5]
    same_name_state_children
  by (auto simp: lstrip_underscore_def)

section \<open>Arguments that are neither a name nor an object with an id\<close>

lemma attr_id_None_register:
  assumes "attr_id s x = None"
  shows "is_SaveFrame s f \<Longrightarrow> sf_setCategory_register f x s = (Inl AttributeError, s)"
    and "is_DataBlock s d \<Longrightarrow> db_setCategory_register d x s = (Inl AttributeError, s)"
    and "is_DataBlock s d \<Longrightarrow> db_setSaveFrame_register d x s = (Inl AttributeError, s)"
    and "is_CifFile s cf \<Longrightarrow> CifFile_setDataBlock_register cf x s = (Inl AttributeError, s)"
    and "is_Category s c \<Longrightarrow> setItem_register c x s = (Inr PNone, s)"
  using assms
  by (auto simp: is_SaveFrame_def is_DataBlock_def is_CifFile_def is_Category_def
      sf_setCategory_register_def db_setCategory_register_def db_setSaveFrame_register_def
      CifFile_setDataBlock_register_def setItem_register_def
      split: option.splits obj.splits)

lemma other_setters_raise_without_id:
  assumes "attr_id s x = None" and "\<forall>n. x \<noteq> PStr n" and "x \<noteq> PStrClass"
  shows "(is_SaveFrame s f \<longrightarrow> SaveFrame_setCategory f x s = (Inl AttributeError, s))
       \<and> (is_DataBlock s d \<longrightarrow> DataBlock_setCategory d x s = (Inl AttributeError, s))
       \<and> (is_DataBlock s d \<longrightarrow> DataBlock_setSaveFrame d x s = (Inl AttributeError, s))
       \<and> (is_CifFile s cf \<longrightarrow> CifFile_setDataBlock cf x s = (Inl AttributeError, s))"
proof (intro conjI impI)
  assume f: "is_SaveFrame s f"
  then have "SaveFrame_setCategory f x s = sf_setCategory_register f x s"
    using assms(2,3)
    by (cases x) (auto simp: SaveFrame_setCategory_def is_SaveFrame_def split: option.splits obj.splits)
  with attr_id_None_register(1) [OF assms(1) f]
  show "SaveFrame_setCategory f x s = (Inl AttributeError, s)" by simp
next
  assume d: "is_DataBlock s d"
  then have "DataBlock_setCategory d x s = db_setCategory_register d x s"
    using assms(2,3)
    by (cases x) (auto simp: DataBlock_setCategory_def is_DataBlock_def split: option.splits obj.splits)
  with attr_id_None_register(2) [OF assms(1) d]
  show "DataBlock_setCategory d x s = (Inl AttributeError, s)" by simp
next
  assume d: "is_DataBlock s d"
  then have "DataBlock_setSaveFrame d x s = db_setSaveFrame_register d x s"
    using assms(2,3)
    by (cases x) (auto simp: DataBlock_setSaveFrame_def is_DataBlock_def split: option.splits obj.splits)
  with attr_id_None_register(3) [OF assms(1) d]
  show "DataBlock_setSaveFrame d x s = (Inl AttributeError, s)" by simp
next
  assume cf: "is_CifFile s cf"
  then have "CifFile_setDataBlock cf x s = CifFile_setDataBlock_register cf x s"
    using assms(2,3)
    by (cases x) (auto simp: CifFile_setDataBlock_def is_CifFile_def split: option.splits obj.splits)
  with attr_id_None_register(4) [OF assms(1) cf]
  show "CifFile_setDataBlock cf x s = (Inl AttributeError, s)" by simp
qed

text \<open>
  C7 (amended). For every \<open>Category.setItem\<close> call whose argument has no \<open>isalnum\<close>
  attribute (it is neither a name string nor the class \<open>str\<close>) and no \<open>id\<close>
  attribute, the call returns \<open>None\<close>, raises nothing and changes nothing.
\<close>

theorem C7_setItem_argument_without_id:
  assumes "is_Category s c" and "attr_id s x = None" and "\<forall>n. x \<noteq> PStr n"
    and "x \<noteq> PStrClass"
  shows "Category_setItem c x s = (Inr PNone, s)"
proof -
  have "Category_setItem c x s = setItem_register c x s"
    using assms(1,3,4)
    by (cases x) (auto simp: Category_setItem_def is_Category_def split: option.splits obj.splits)
  with attr_id_None_register(5) [OF assms(2) assms(1)] show ?thesis by simp
qed

lemma dictionary_state_classes:
  "is_Category dictionary_state 2" "attr_id dictionary_state (PInt 5) = None"
  by code_simp+

theorem C7_setItem_argument_without_id_witness:
  "is_Category dictionary_state 2 \<and> attr_id dictionary_state (PInt 5) = None
   \<and> Category_setItem 2 (PInt 5) dictionary_state = (Inr PNone, dictionary_state)"
  using C7_setItem_argument_without_id [of dictionary_state 2 "PInt 5"] dictionary_state_classes
  by simp

text \<open>
  C7 as stated fails: \<open>setDataBlock(5)\<close>, \<open>setCategory(5)\<close> and \<open>setSaveFrame(5)\<close>
  raise AttributeError, and so does \<open>setItem\<close> when it is given a DataBlock object
  (it has an \<open>id\<close> but no \<open>value\<close>); \<open>setItem(str)\<close> raises TypeError.
\<close>

theorem C7_setters_raise_counterexample:
  "fst (CifFile_setDataBlock 0 (PInt 5) tree_state) = Inl AttributeError
   \<and> fst (DataBlock_setCategory 1 (PInt 5) tree_state) = Inl AttributeError
   \<and> fst (DataBlock_setSaveFrame 1 (PInt 5) tree_state) = Inl AttributeError
   \<and> fst (SaveFrame_setCategory 4 PNone dictionary_state) = Inl AttributeError
   \<and> fst (Category_setItem 2 (PRef 1) tree_state) = Inl AttributeError
   \<and> fst (Category_setItem 2 PStrClass tree_state) = Inl TypeError"
  by code_simp

section \<open>Bulk import: what the try block can do\<close>

lemma same_kind_refl [simp]: "same_kind ob ob"
  by (cases ob) (simp_all add: same_kind_def)


lemma heap_extends_refl [simp]: "heap_extends s s"
  by (simp add: heap_extends_def)







lemma lookup_item_after_store:
  assumes "lookup s a = Some (OItem it)"
  shows "lookup (store a (OItem it') s) a = Some (OItem it')"
  using assms by (rule lookup_store_same)










section \<open>Bulk import: the tree is kept\<close>






















section \<open>Bulk import: the loops\<close>














section \<open>Bulk import of malformed branches\<close>






end
